theory Spec2Isabelle
  imports Complex_Main "HOL-Library.Product_Lexorder" "HOL-Library.Multiset"
begin

section \<open>Data model\<close>

text \<open>
  The development embeds \<^verbatim>\<open>src/models/data_utils/utils.py\<close>. Node ids are \<open>int\<close>, as
  numpy indexes with signed integers and a negative index counts from the end of the
  array. The numbers that enter the functions are finite floats; a finite float is a real
  number, and where the source compares two of them the model compares the reals. What
  a float operation rounds to is modelled in three ways, according to what the source
  fixes:
  \<^item> the azimuth offset and the histogram edges of \<^verbatim>\<open>load_rawdata\<close> are computed in a
    format that the source fixes, by operations that IEEE 754 rounds correctly; they are
    modelled with the rounding function \<open>fl_round\<close> below;
  \<^item> the keys of \<^verbatim>\<open>sort_nodes_and_edges\<close> are computed in the format of the caller's
    array, with library functions; the arithmetic is an argument of the model, and the
    theorems hold for every arithmetic;
  \<^item> the distances of the BFS sequencer, the grid of \<^verbatim>\<open>get_gridX\<close> and the division
    that normalises the histogram are computed over the reals; the theorems about them
    say so where it matters.

  The special values that the source can produce from finite input, an infinity and NaN,
  are separate constructors of \<open>fl\<close>.
\<close>

datatype error = IndexError | RuntimeError | ValueError | ZeroDivisionError | ShapeMismatch

type_synonym point = "real \<times> real \<times> real"

datatype fl = Fin real | PosInf | NegInf | NaN

section \<open>Rounding to a binary floating-point format\<close>

text \<open>
  Rounding of IEEE 754 to the nearest number of precision \<open>p\<close> (24 bits for float32, 53 for
  float64), ties to even: the magnitude is divided by the unit in the last place of its
  binade, rounded to an integer, and multiplied back; the sign is kept. The exponent
  range has no part in the model: the operations that are rounded below, on floats of the
  format, neither overflow nor give a nonzero result below the normal range.
\<close>

definition round_even :: "real \<Rightarrow> int" where
  "round_even y =
     (let n = \<lfloor>y\<rfloor>; d = y - of_int n
      in if d < 1 / 2 then n else if 1 / 2 < d then n + 1 else if even n then n else n + 1)"

definition ulp :: "nat \<Rightarrow> real \<Rightarrow> real" where
  "ulp p x = 2 powr (of_int \<lfloor>log 2 \<bar>x\<bar>\<rfloor> - real p + 1)"

definition fl_round :: "nat \<Rightarrow> real \<Rightarrow> real" where
  "fl_round p x = sgn x * (of_int (round_even (\<bar>x\<bar> / ulp p x)) * ulp p x)"

text \<open>
  \<^verbatim>\<open>np.pi\<close> is the float64 nearest to \<open>\<pi>\<close>.
\<close>

definition float64 :: "real \<Rightarrow> real" where
  "float64 = fl_round 53"

definition np_pi :: real where
  "np_pi = float64 pi"

section \<open>The BFS sequencer: \<^verbatim>\<open>sort_nodes_and_edges_bfs\<close>\<close>

text \<open>Step 1, \<^verbatim>\<open>np.linalg.norm(pos_np, axis=1)\<close>: the Euclidean norm of every row.\<close>

definition norm3 :: "point \<Rightarrow> real" where
  "norm3 p = (case p of (x, y, z) \<Rightarrow> sqrt (x\<^sup>2 + y\<^sup>2 + z\<^sup>2))"

definition distances :: "point list \<Rightarrow> real list" where
  "distances pos_np = map norm3 pos_np"

text \<open>
  Step 2, \<^verbatim>\<open>np.argsort(distances)\<close>. The source passes no \<^verbatim>\<open>kind\<close>, so numpy runs
  its default sort. What the call guarantees is that the returned index array is a
  permutation of the indices that lists the values in ascending order; the order of two
  equal values is that of the sorting routine of the installed numpy, which the source
  does not contain. \<open>np_argsort_ok ds rank\<close> says that \<open>rank\<close> is such a result for the
  values \<open>ds\<close>.
\<close>

definition np_argsort_ok :: "real list \<Rightarrow> nat list \<Rightarrow> bool" where
  "np_argsort_ok ds rank \<longleftrightarrow>
     sort rank = [0..<length ds] \<and> sorted (map (\<lambda>i. ds ! i) rank)"

text \<open>
  Step 3: \<^verbatim>\<open>adjacency = defaultdict(list)\<close>, filled by \<^verbatim>\<open>adjacency[src].append(dst)\<close>
  for every row \<open>(src, dst)\<close> of the edge array. A \<^verbatim>\<open>defaultdict(list)\<close> answers every key,
  with the empty list where nothing was stored, so it is a total function here. Nothing
  in the loop looks at the values of \<open>src\<close> and \<open>dst\<close>.
\<close>

type_synonym adjacency = "int \<Rightarrow> int list"

definition build_adjacency :: "(int \<times> int) list \<Rightarrow> adjacency" where
  "build_adjacency edges_np =
     foldl (\<lambda>adj (src, dst). adj(src := adj src @ [dst])) (\<lambda>_. []) edges_np"

text \<open>
  Indexing the numpy array \<^verbatim>\<open>visited\<close> of length \<open>n\<close> with a signed integer: an index in
  \<open>[0, n)\<close> is taken as it is, an index in \<open>[-n, 0)\<close> counts from the end, anything else
  raises \<^verbatim>\<open>IndexError\<close>.
\<close>

definition np_index :: "nat \<Rightarrow> int \<Rightarrow> nat option" where
  "np_index n i =
     (if 0 \<le> i \<and> i < int n then Some (nat i)
      else if - int n \<le> i \<and> i < 0 then Some (nat (i + int n))
      else None)"

text \<open>
  The inner \<^verbatim>\<open>for neighbor in adjacency[current]\<close> loop: an unvisited neighbour is marked
  and appended to the queue.
\<close>

fun visit_neighbors :: "int list \<Rightarrow> bool list \<times> int list \<Rightarrow> error + (bool list \<times> int list)" where
  "visit_neighbors [] (visited, queue) = Inr (visited, queue)"
| "visit_neighbors (neighbor # rest) (visited, queue) =
     (case np_index (length visited) neighbor of
        None \<Rightarrow> Inl IndexError
      | Some k \<Rightarrow>
          if \<not> visited ! k
          then visit_neighbors rest (visited[k := True], queue @ [neighbor])
          else visit_neighbors rest (visited, queue))"

definition unvisited :: "bool list \<Rightarrow> nat" where
  "unvisited visited = length (filter Not visited)"

lemma unvisited_mark:
  "k < length visited \<Longrightarrow> \<not> visited ! k \<Longrightarrow> Suc (unvisited (visited[k := True])) = unvisited visited"
proof (induction visited arbitrary: k)
  case Nil
  then show ?case by simp
next
  case (Cons b bs)
  then show ?case by (cases k) (auto simp: unvisited_def)
qed

lemma np_index_less: "np_index n i = Some k \<Longrightarrow> k < n"
  by (auto simp: np_index_def split: if_splits)

lemma visit_neighbors_measure:
  "visit_neighbors nbs (visited, queue) = Inr (visited', queue') \<Longrightarrow>
     2 * unvisited visited' + length queue' \<le> 2 * unvisited visited + length queue"
proof (induction nbs arbitrary: visited queue)
  case Nil
  then show ?case by simp
next
  case (Cons nb nbs)
  show ?case
  proof (cases "np_index (length visited) nb")
    case None
    with Cons.prems show ?thesis by simp
  next
    case (Some k)
    show ?thesis
    proof (cases "visited ! k")
      case True
      with Some Cons.prems Cons.IH [of visited queue] show ?thesis by simp
    next
      case False
      from Some have "k < length visited" by (rule np_index_less)
      with False have "Suc (unvisited (visited[k := True])) = unvisited visited"
        by (simp add: unvisited_mark)
      moreover from Some False Cons.prems
      have "visit_neighbors nbs (visited[k := True], queue @ [nb]) = Inr (visited', queue')"
        by simp
      from Cons.IH [OF this]
      have "2 * unvisited visited' + length queue'
              \<le> 2 * unvisited (visited[k := True]) + length (queue @ [nb])" .
      ultimately show ?thesis by simp
    qed
  qed
qed

text \<open>
  The \<^verbatim>\<open>while queue\<close> loop with its FIFO queue: the head is dequeued and appended to
  \<^verbatim>\<open>new_order\<close>, then its neighbours are visited. Every round either shortens the queue
  or marks a node, which is why the loop ends.
\<close>

function bfs_while :: "adjacency \<Rightarrow> bool list \<times> int list \<times> int list \<Rightarrow> error + (bool list \<times> int list)" where
  "bfs_while adjacency (visited, [], new_order) = Inr (visited, new_order)"
| "bfs_while adjacency (visited, current # queue, new_order) =
     (case visit_neighbors (adjacency current) (visited, queue) of
        Inl e \<Rightarrow> Inl e
      | Inr (visited', queue') \<Rightarrow> bfs_while adjacency (visited', queue', new_order @ [current]))"
  by pat_completeness auto
termination
proof (relation "measure (\<lambda>(adjacency, visited, queue, new_order). 2 * unvisited visited + length queue)")
  show "wf (measure (\<lambda>(adjacency, visited, queue, new_order). 2 * unvisited visited + length queue))"
    by simp
next
  fix adjacency :: adjacency and visited current queue new_order x2 visited' queue'
  assume "visit_neighbors (adjacency current) (visited, queue) = Inr x2" "(visited', queue') = x2"
  then have "visit_neighbors (adjacency current) (visited, queue) = Inr (visited', queue')"
    by simp
  from visit_neighbors_measure [OF this]
  show "((adjacency, visited', queue', new_order @ [current]),
         (adjacency, visited, current # queue, new_order))
        \<in> measure (\<lambda>(adjacency, visited, queue, new_order). 2 * unvisited visited + length queue)"
    by simp
qed

text \<open>
  The outer \<^verbatim>\<open>for node in sorted_distance_indices\<close> loop: every node that is still
  unvisited when its turn comes seeds a traversal.
\<close>

fun bfs_seeds :: "adjacency \<Rightarrow> nat list \<Rightarrow> bool list \<times> int list \<Rightarrow> error + (bool list \<times> int list)" where
  "bfs_seeds adjacency [] (visited, new_order) = Inr (visited, new_order)"
| "bfs_seeds adjacency (node # rest) (visited, new_order) =
     (if \<not> node < length visited then Inl IndexError
      else if \<not> visited ! node
      then (case bfs_while adjacency (visited[node := True], [int node], new_order) of
              Inl e \<Rightarrow> Inl e
            | Inr st \<Rightarrow> bfs_seeds adjacency rest st)
      else bfs_seeds adjacency rest (visited, new_order))"

text \<open>
  The whole function. \<open>rank\<close> stands for the array \<^verbatim>\<open>sorted_distance_indices\<close> that
  \<^verbatim>\<open>np.argsort\<close> returned at step 2; the theorems below take any \<open>rank\<close> with
  \<open>np_argsort_ok (distances pos_np) rank\<close>. The edge array is read row by row, a row
  being one \<open>(src, dst)\<close> pair.
\<close>

definition sort_nodes_and_edges_bfs :: "nat list \<Rightarrow> point list \<Rightarrow> (int \<times> int) list \<Rightarrow> error + int list" where
  "sort_nodes_and_edges_bfs rank pos_np edges_np =
     (let num_nodes = length pos_np;
          adjacency = build_adjacency edges_np;
          visited = replicate num_nodes False
      in case bfs_seeds adjacency rank (visited, []) of
           Inl e \<Rightarrow> Inl e
         | Inr (visited', new_order) \<Rightarrow> Inr new_order)"

section \<open>The spherical sequencer: \<^verbatim>\<open>sort_nodes_and_edges\<close>\<close>

text \<open>
  \<^verbatim>\<open>pos_np\<close> is a float array of the caller, and lines 64 and 65 compute in its dtype. The
  type \<open>'f\<close> stands for the values of that dtype (the finite floats with the two zeros, the
  infinities and NaN) and \<open>fa\<close> for its arithmetic: \<^verbatim>\<open>x ** 2\<close>, \<^verbatim>\<open>+\<close>, \<^verbatim>\<open>np.sqrt\<close>,
  \<^verbatim>\<open>np.arctan2\<close>, the remainder \<^verbatim>\<open>%\<close> and the constant \<^verbatim>\<open>2 * np.pi\<close>. \<open>f_sort_pos\<close> is
  the place of a value in the order in which numpy sorts: values that compare equal,
  as the two zeros do, have the same place, and NaN comes last. Nothing is assumed of
  \<open>fa\<close>, so what is proved holds for the arithmetic of the machine, whatever it rounds to.
\<close>

record ('f, 'k) np_float =
  f_square :: "'f \<Rightarrow> 'f"
  f_add :: "'f \<Rightarrow> 'f \<Rightarrow> 'f"
  f_sqrt :: "'f \<Rightarrow> 'f"
  f_arctan2 :: "'f \<Rightarrow> 'f \<Rightarrow> 'f"
  f_remainder :: "'f \<Rightarrow> 'f \<Rightarrow> 'f"
  f_two_pi :: "'f"
  f_sort_pos :: "'f \<Rightarrow> 'k"

text \<open>
  The rows \<open>(r, x, phi)\<close> of \<^verbatim>\<open>spherical_coords\<close>: \<^verbatim>\<open>r = np.sqrt(x**2 + y**2 + z**2)\<close>, the
  sum taken from the left, and \<^verbatim>\<open>phi = np.arctan2(z, y) % (2 * np.pi)\<close>.
\<close>

definition spherical_coords :: "('f, 'k) np_float \<Rightarrow> ('f \<times> 'f \<times> 'f) list \<Rightarrow> ('f \<times> 'f \<times> 'f) list" where
  "spherical_coords fa pos_np =
     map (\<lambda>(x, y, z).
            (f_sqrt fa (f_add fa (f_add fa (f_square fa x) (f_square fa y)) (f_square fa z)),
             x,
             f_remainder fa (f_arctan2 fa z y) (f_two_pi fa))) pos_np"

text \<open>
  \<^verbatim>\<open>np.lexsort(keys)\<close> is an indirect stable sort on several keys, the last key being the
  primary one: starting from the indices in ascending order, it sorts them stably by
  each key in turn, from the first key to the last. The source passes the columns
  \<open>phi\<close>, \<open>x\<close>, \<open>r\<close> in this order.
\<close>

definition np_lexsort :: "nat \<Rightarrow> ('k::linorder) list list \<Rightarrow> nat list" where
  "np_lexsort n keys = foldl (\<lambda>order key. sort_key (\<lambda>i. key ! i) order) [0..<n] keys"

definition sort_nodes_and_edges ::
    "('f, 'k::linorder) np_float \<Rightarrow> ('f \<times> 'f \<times> 'f) list \<Rightarrow> (int \<times> int) list \<Rightarrow> nat list" where
  "sort_nodes_and_edges fa pos_np edges_np =
     (let sc = spherical_coords fa pos_np
      in np_lexsort (length pos_np)
           [map (\<lambda>c. f_sort_pos fa (snd (snd c))) sc,
            map (\<lambda>c. f_sort_pos fa (fst (snd c))) sc,
            map (\<lambda>c. f_sort_pos fa (fst c)) sc])"



text \<open>
  The arithmetic of the reals, which the floats follow where no operation rounds:
  \<^verbatim>\<open>np.arctan2(z, y)\<close> is the angle of the point with abscissa \<open>y\<close> and ordinate \<open>z\<close>, in
  \<open>(-\<pi>, \<pi>]\<close>, and \<^verbatim>\<open>a % m\<close> is the remainder that takes the sign of the divisor. It
  serves as an instance in the examples.
\<close>

definition np_arctan2 :: "real \<Rightarrow> real \<Rightarrow> real" where
  "np_arctan2 z y =
     (if 0 < y then arctan (z / y)
      else if y < 0 then (if 0 \<le> z then arctan (z / y) + pi else arctan (z / y) - pi)
      else if 0 < z then pi / 2
      else if z < 0 then - pi / 2
      else 0)"

definition np_remainder :: "real \<Rightarrow> real \<Rightarrow> real" where
  "np_remainder a m = a - m * of_int \<lfloor>a / m\<rfloor>"

definition real_arith :: "(real, real) np_float" where
  "real_arith =
     \<lparr>f_square = (\<lambda>x. x\<^sup>2), f_add = (\<lambda>a b. a + b), f_sqrt = sqrt, f_arctan2 = np_arctan2,
      f_remainder = np_remainder, f_two_pi = 2 * pi, f_sort_pos = (\<lambda>v. v)\<rparr>"

text \<open>
  The arithmetic of a float64 array whose values are finite and stay in the normal range.
  IEEE 754 rounds the product, the sum and the square root correctly; numpy's remainder
  is an exact \<^verbatim>\<open>fmod\<close> followed by one rounded addition of the divisor, which is the
  rounded remainder; \<^verbatim>\<open>2 * np.pi\<close> is a float product. The arc tangent is the one of the
  C library, an argument of the instance. It serves in an example in which the radii of
  two points agree over the reals and differ as floats.
\<close>

definition float64_arith :: "(real \<Rightarrow> real \<Rightarrow> real) \<Rightarrow> (real, real) np_float" where
  "float64_arith libm_arctan2 =
     \<lparr>f_square = (\<lambda>x. float64 (x * x)), f_add = (\<lambda>a b. float64 (a + b)),
      f_sqrt = (\<lambda>a. float64 (sqrt a)), f_arctan2 = libm_arctan2,
      f_remainder = (\<lambda>a m. float64 (np_remainder a m)), f_two_pi = float64 (2 * np_pi),
      f_sort_pos = (\<lambda>v. v)\<rparr>"

section \<open>The grid generator: \<^verbatim>\<open>get_gridX\<close>\<close>

text \<open>
  \<^verbatim>\<open>torch.arange(n)\<close> is \<open>0, 1, \<dots>, n - 1\<close>, the empty tensor for \<open>n = 0\<close>, and raises
  a \<^verbatim>\<open>RuntimeError\<close> for a negative \<open>n\<close>. Dividing the empty tensor by zero divides
  nothing.
\<close>

definition torch_arange :: "int \<Rightarrow> error + real list" where
  "torch_arange n = (if n < 0 then Inl RuntimeError else Inr (map real [0..<nat n]))"

definition pos_x :: "real \<Rightarrow> real" where
  "pos_x i_grid = i_grid * 2 - 1"

definition pos_phi :: "real \<Rightarrow> real" where
  "pos_phi j_grid = (j_grid * 2 - 1) * pi"

definition grid_point :: "real \<Rightarrow> real \<Rightarrow> point" where
  "grid_point i_grid j_grid =
     (let pos_r = sqrt (1 - (pos_x i_grid)\<^sup>2);
          pos_y = pos_r * cos (pos_phi j_grid);
          pos_z = pos_r * sin (pos_phi j_grid)
      in (pos_x i_grid, pos_y, pos_z))"

text \<open>
  \<^verbatim>\<open>torch.meshgrid(i_idx, j_idx, indexing='ij')\<close> followed by \<^verbatim>\<open>reshape(-1, 3)\<close>: the
  rows run over \<open>i\<close> first and over \<open>j\<close> within one \<open>i\<close>.
\<close>

definition get_gridX :: "int \<times> int \<Rightarrow> error + point list" where
  "get_gridX sizes =
     (case torch_arange (fst sizes) of
        Inl e \<Rightarrow> Inl e
      | Inr ai \<Rightarrow>
         (case torch_arange (snd sizes) of
            Inl e \<Rightarrow> Inl e
          | Inr aj \<Rightarrow>
             (let i_idx = map (\<lambda>a. a / real_of_int (fst sizes)) ai;
                  j_idx = map (\<lambda>a. a / real_of_int (snd sizes)) aj
              in Inr (concat (map (\<lambda>i_grid. map (\<lambda>j_grid. grid_point i_grid j_grid) j_idx) i_idx)))))"

section \<open>The density estimator: \<^verbatim>\<open>load_rawdata\<close>\<close>

text \<open>
  The file is read with \<^verbatim>\<open>dtype\<close>, float32 when the caller gives none; float16 data is
  converted to float32 at line 94. The arithmetic of line 99 is that of the array: 24
  bits of precision for float16 and float32 data, 53 for float64 data.
\<close>

datatype dtype = Float16 | Float32 | Float64

definition precision :: "dtype \<Rightarrow> nat" where
  "precision dt = (case dt of Float16 \<Rightarrow> 24 | Float32 \<Rightarrow> 24 | Float64 \<Rightarrow> 53)"

text \<open>
  Float operations that can leave the finite numbers. Both divisions of the source have a
  finite divisor; a zero divisor gives NaN for a zero dividend and an infinity otherwise.
  \<^verbatim>\<open>np.sqrt\<close> of a negative number is NaN, and NaN goes through a product.
\<close>

definition fl_div :: "fl \<Rightarrow> real \<Rightarrow> fl" where
  "fl_div a d =
     (case a of
        Fin v \<Rightarrow> if d \<noteq> 0 then Fin (v / d) else if v = 0 then NaN else if 0 < v then PosInf else NegInf
      | PosInf \<Rightarrow> if d < 0 then NegInf else PosInf
      | NegInf \<Rightarrow> if d < 0 then PosInf else NegInf
      | NaN \<Rightarrow> NaN)"

definition fl_mul :: "fl \<Rightarrow> real \<Rightarrow> fl" where
  "fl_mul a c =
     (case a of
        Fin v \<Rightarrow> Fin (v * c)
      | PosInf \<Rightarrow> if c = 0 then NaN else if 0 < c then PosInf else NegInf
      | NegInf \<Rightarrow> if c = 0 then NaN else if 0 < c then NegInf else PosInf
      | NaN \<Rightarrow> NaN)"

definition np_sqrt :: "real \<Rightarrow> fl" where
  "np_sqrt v = (if v < 0 then NaN else Fin (sqrt v))"

text \<open>
\<^verbatim>\<open>rawdata.reshape(-1, 4)\<close>: rows of four fields; the caller checks the length.
\<close>

fun reshape4 :: "real list \<Rightarrow> (real \<times> real \<times> real \<times> real) list" where
  "reshape4 (a # b # c # d # rest) = (a, b, c, d) # reshape4 rest"
| "reshape4 _ = []"

text \<open>
  \<^verbatim>\<open>np.linspace(start, stop, num)\<close> in float64, as numpy computes it: the difference
  \<open>delta\<close> of the ends, the step \<open>delta / (num - 1)\<close>, the points \<open>k * step + start\<close>, every
  operation rounded, and the last point set to \<open>stop\<close>. A step that rounds to zero makes
  numpy divide first and multiply afterwards; a single point has no step.
\<close>

definition np_linspace :: "real \<Rightarrow> real \<Rightarrow> nat \<Rightarrow> real list" where
  "np_linspace start stop num =
     (let divisor = num - 1;
          delta = float64 (stop - start);
          step = float64 (delta / real divisor);
          y = (if 0 < divisor
               then (if step = 0
                     then map (\<lambda>k. float64 (float64 (real k / real divisor) * delta)) [0..<num]
                     else map (\<lambda>k. float64 (real k * step)) [0..<num])
               else map (\<lambda>k. float64 (real k * delta)) [0..<num]);
          y' = map (\<lambda>v. float64 (v + start)) y
      in if 1 < num then y'[num - 1 := stop] else y')"

text \<open>
  The bin of one coordinate in \<^verbatim>\<open>np.histogram2d\<close>: the number \<open>c\<close> of edges that are at
  most \<open>v\<close> (\<^verbatim>\<open>searchsorted(edges, v, side='right')\<close>), lowered by one when \<open>v\<close> is the last
  edge, so that the last bin is closed on the right. \<open>c = 0\<close> and \<open>c = length edges\<close> are
  the two outlier bins, which the histogram drops. A float32 sample is compared with a
  float64 edge after an exact conversion, that is, as a real number. numpy refuses edges
  that decrease; the edges of \<^verbatim>\<open>np.linspace\<close> increase for every size below \<open>2\<^sup>5\<^sup>3\<close>, and
  the refusal is no branch of the model.
\<close>

definition bin_index :: "real list \<Rightarrow> real \<Rightarrow> nat option" where
  "bin_index edges v =
     (let c = length (filter (\<lambda>e. e \<le> v) edges);
          c' = (if edges \<noteq> [] \<and> v = last edges then c - 1 else c)
      in if c' = 0 \<or> c' = length edges then None else Some (c' - 1))"

definition np_histogram2d :: "real list \<Rightarrow> real list \<Rightarrow> real list \<Rightarrow> real list \<Rightarrow> nat list list" where
  "np_histogram2d xs ys x_edges y_edges =
     map (\<lambda>a. map (\<lambda>b.
            length (filter (\<lambda>(x, y). bin_index x_edges x = Some a \<and> bin_index y_edges y = Some b)
                      (zip xs ys)))
          [0..<length y_edges - 1]) [0..<length x_edges - 1]"

text \<open>
  Lines 97 to 111. \<open>field_x\<close> and \<open>field_1\<close> are the first two columns as read.
  \<open>offset_azimuth\<close> is one element of line 99, \<^verbatim>\<open>phi = rawdata[:,1] - np.pi\<close>: the constant
  is first converted to the type of the array, then the difference is rounded in that
  type. The variable \<^verbatim>\<open>phi\<close> that line 110 hands to \<^verbatim>\<open>np.histogram2d\<close> is this array; the
  histogram is flattened by \<^verbatim>\<open>reshape(-1, 1)\<close>.
\<close>

definition field_x :: "real list \<Rightarrow> real list" where
  "field_x rawdata = map (\<lambda>(a, b, c, d). a) (reshape4 rawdata)"

definition field_1 :: "real list \<Rightarrow> real list" where
  "field_1 rawdata = map (\<lambda>(a, b, c, d). b) (reshape4 rawdata)"

definition offset_azimuth :: "dtype \<Rightarrow> real \<Rightarrow> real" where
  "offset_azimuth dt f1 = fl_round (precision dt) (f1 - fl_round (precision dt) np_pi)"

definition field_phi :: "dtype \<Rightarrow> real list \<Rightarrow> real list" where
  "field_phi dt rawdata = map (offset_azimuth dt) (field_1 rawdata)"

definition hist_counts :: "dtype \<Rightarrow> nat \<times> nat \<Rightarrow> real list \<Rightarrow> nat list" where
  "hist_counts dt sizes rawdata =
     (let x_edges = np_linspace (- 1) 1 (fst sizes + 1);
          phi_edges = np_linspace (- np_pi) np_pi (snd sizes + 1)
      in concat (np_histogram2d (field_x rawdata) (field_phi dt rawdata) x_edges phi_edges))"

text \<open>
  The reconstructed directions \<^verbatim>\<open>raw_X = np.column_stack((x, y, z))\<close>, from \<open>x\<close> and the
  same array \<^verbatim>\<open>phi\<close>. Their second and third components are computed over the reals,
  but for the NaN of a negative radicand; no theorem below depends on their values.
\<close>

definition direction :: "real \<Rightarrow> real \<Rightarrow> fl \<times> fl \<times> fl" where
  "direction x phi =
     (let r = np_sqrt (1 - x\<^sup>2)
      in (Fin x, fl_mul r (cos phi), fl_mul r (sin phi)))"

definition raw_X :: "dtype \<Rightarrow> real list \<Rightarrow> (fl \<times> fl \<times> fl) list" where
  "raw_X dt rawdata = map2 direction (field_x rawdata) (field_phi dt rawdata)"

text \<open>
  \<^verbatim>\<open>np.random.choice(n, size, replace=False)\<close> draws \<open>size\<close> distinct indices below \<open>n\<close>.
  The generator is an argument of the model, a function from \<open>n\<close> and the size to the
  indices drawn; \<open>np_random_choice_ok n num choice\<close> says that \<open>choice\<close> is a possible
  result of the call.
\<close>

definition np_random_choice_ok :: "nat \<Rightarrow> nat \<Rightarrow> nat list \<Rightarrow> bool" where
  "np_random_choice_ok n num choice \<longleftrightarrow>
     length choice = num \<and> distinct choice \<and> list_all (\<lambda>k. k < n) choice"

text \<open>
  The whole function, for non-negative sizes. \<^verbatim>\<open>reshape(-1, 4)\<close> raises when the number
  of values is no multiple of four; the shape check ends the process; \<^verbatim>\<open>4 * math.pi / 0\<close>
  is a \<^verbatim>\<open>ZeroDivisionError\<close> of Python, while the tensor division by the total is a float
  division, which raises nothing. The two divisions that normalise the histogram are
  taken over the reals.
\<close>

definition load_rawdata ::
    "dtype \<Rightarrow> nat \<times> nat \<Rightarrow> (nat \<Rightarrow> nat \<Rightarrow> nat list) \<Rightarrow> real list \<Rightarrow> error + ((fl \<times> fl \<times> fl) list \<times> fl list)" where
  "load_rawdata dt sizes np_random_choice rawdata =
     (if length rawdata mod 4 \<noteq> 0 then Inl ValueError
      else
        let ray_data = map real (hist_counts dt sizes rawdata)
        in if length ray_data \<noteq> fst sizes * snd sizes then Inl ShapeMismatch
           else if length ray_data = 0 then Inl ZeroDivisionError
           else
             let area = 4 * pi / real (length ray_data);
                 total = sum_list ray_data;
                 ray_data' = map (\<lambda>h. fl_div (fl_div (Fin h) total) area) ray_data;
                 raw_num = min 8192 (length (raw_X dt rawdata));
                 raw_data = map (\<lambda>k. raw_X dt rawdata ! k)
                              (np_random_choice (length (raw_X dt rawdata)) raw_num)
             in Inr (raw_data, ray_data'))"


section \<open>Auxiliary notions of the proofs\<close>

text \<open>
  The invariant of the traversal: \<open>seen\<close> lists the nodes dequeued or queued so far, without
  repetition, and \<open>visited\<close> marks exactly these.
\<close>

definition bfs_inv :: "bool list \<Rightarrow> int list \<Rightarrow> bool" where
  "bfs_inv visited seen \<longleftrightarrow>
     distinct seen \<and>
     (\<forall>k<length visited. visited ! k \<longleftrightarrow> int k \<in> set seen) \<and>
     (\<forall>i\<in>set seen. 0 \<le> i \<and> i < int (length visited))"

text \<open>
  The sort places of the key row of node \<open>i\<close>, read from the three columns that
  \<^verbatim>\<open>np.lexsort\<close> is given.
\<close>

definition lex_key :: "('f, 'k) np_float \<Rightarrow> ('f \<times> 'f \<times> 'f) list \<Rightarrow> nat \<Rightarrow> 'k \<times> 'k \<times> 'k" where
  "lex_key fa pos_np i =
     (map (\<lambda>c. f_sort_pos fa (fst c)) (spherical_coords fa pos_np) ! i,
      map (\<lambda>c. f_sort_pos fa (fst (snd c))) (spherical_coords fa pos_np) ! i,
      map (\<lambda>c. f_sort_pos fa (snd (snd c))) (spherical_coords fa pos_np) ! i)"

section \<open>Properties of the BFS sequencer\<close>

lemma build_adjacency_gen:
  "foldl (\<lambda>adj (src, dst). adj(src := adj src @ [dst])) adj0 edges s
     = adj0 s @ map snd (filter (\<lambda>e. fst e = s) edges)"
  by (induction edges arbitrary: adj0) (auto split: prod.splits)

lemma build_adjacency_eq:
  "build_adjacency edges_np s = map snd (filter (\<lambda>e. fst e = s) edges_np)"
  by (simp add: build_adjacency_def build_adjacency_gen)

lemma np_index_in_range: "0 \<le> i \<Longrightarrow> i < int n \<Longrightarrow> np_index n i = Some (nat i)"
  by (simp add: np_index_def)

lemma bfs_inv_mark:
  assumes inv: "bfs_inv visited (order @ queue)"
    and rng: "0 \<le> nb" "nb < int (length visited)"
    and new: "\<not> visited ! nat nb"
  shows "bfs_inv (visited[nat nb := True]) (order @ queue @ [nb])"
proof -
  from rng have k: "nat nb < length visited" "int (nat nb) = nb" by simp_all
  from inv new k have notin: "nb \<notin> set (order @ queue)"
    unfolding bfs_inv_def by metis
  have "\<forall>j<length visited. (visited[nat nb := True]) ! j \<longleftrightarrow> int j \<in> set (order @ queue @ [nb])"
  proof (intro allI impI)
    fix j assume j: "j < length visited"
    show "(visited[nat nb := True]) ! j \<longleftrightarrow> int j \<in> set (order @ queue @ [nb])"
    proof (cases "j = nat nb")
      case True
      with k show ?thesis by simp
    next
      case False
      then have "int j \<noteq> nb" using k by auto
      with False j inv show ?thesis unfolding bfs_inv_def by simp
    qed
  qed
  with inv notin rng show ?thesis unfolding bfs_inv_def by simp
qed

lemma visit_neighbors_inv:
  assumes "\<forall>d\<in>set nbs. 0 \<le> d \<and> d < int (length visited)"
    and "bfs_inv visited (order @ queue)"
  shows "\<exists>visited' queue'. visit_neighbors nbs (visited, queue) = Inr (visited', queue')
           \<and> length visited' = length visited \<and> bfs_inv visited' (order @ queue')
           \<and> set queue \<subseteq> set queue'"
  using assms
proof (induction nbs arbitrary: visited queue)
  case Nil
  then show ?case by simp
next
  case (Cons nb nbs)
  from Cons.prems(1) have rng: "0 \<le> nb" "nb < int (length visited)" by simp_all
  then have idx: "np_index (length visited) nb = Some (nat nb)" by (rule np_index_in_range)
  show ?case
  proof (cases "visited ! nat nb")
    case True
    from Cons.prems have "\<forall>d\<in>set nbs. 0 \<le> d \<and> d < int (length visited)" by simp
    from Cons.IH [OF this Cons.prems(2)] idx True show ?thesis by simp
  next
    case False
    from Cons.prems(2) rng False
    have inv': "bfs_inv (visited[nat nb := True]) (order @ queue @ [nb])" by (rule bfs_inv_mark)
    from Cons.prems have "\<forall>d\<in>set nbs. 0 \<le> d \<and> d < int (length (visited[nat nb := True]))" by simp
    from Cons.IH [OF this inv'] idx False show ?thesis by auto
  qed
qed

lemma bfs_while_inv:
  assumes "\<forall>s. \<forall>d\<in>set (adjacency s). 0 \<le> d \<and> d < int (length visited)"
    and "bfs_inv visited (order @ queue)"
  shows "\<exists>visited' order'. bfs_while adjacency (visited, queue, order) = Inr (visited', order')
           \<and> length visited' = length visited \<and> bfs_inv visited' order'
           \<and> set (order @ queue) \<subseteq> set order'"
  using assms
proof (induction adjacency "(visited, queue, order)" arbitrary: visited queue order rule: bfs_while.induct)
  case (1 adjacency visited new_order)
  then show ?case by simp
next
  case (2 adjacency visited current queue new_order)
  from 2(3) have inv: "bfs_inv visited ((new_order @ [current]) @ queue)" by simp
  from 2(2) have "\<forall>d\<in>set (adjacency current). 0 \<le> d \<and> d < int (length visited)" by blast
  from visit_neighbors_inv [OF this inv]
  obtain visited' queue' where
    vn: "visit_neighbors (adjacency current) (visited, queue) = Inr (visited', queue')"
    and len: "length visited' = length visited"
    and inv': "bfs_inv visited' ((new_order @ [current]) @ queue')"
    and sub: "set queue \<subseteq> set queue'" by blast
  from 2(2) len have adj': "\<forall>s. \<forall>d\<in>set (adjacency s). 0 \<le> d \<and> d < int (length visited')" by simp
  from 2(1) [OF vn refl adj' inv'] vn len sub show ?case by auto
qed

lemma bfs_seeds_inv:
  assumes "\<forall>s. \<forall>d\<in>set (adjacency s). 0 \<le> d \<and> d < int (length visited)"
    and "bfs_inv visited order"
    and "\<forall>n\<in>set rank. n < length visited"
  shows "\<exists>visited' order'. bfs_seeds adjacency rank (visited, order) = Inr (visited', order')
           \<and> length visited' = length visited \<and> bfs_inv visited' order'
           \<and> set order \<union> int ` set rank \<subseteq> set order'"
  using assms
proof (induction rank arbitrary: visited order)
  case Nil
  then show ?case by simp
next
  case (Cons node rank)
  from Cons.prems(3) have node: "node < length visited" and rest: "\<forall>n\<in>set rank. n < length visited"
    by simp_all
  show ?case
  proof (cases "visited ! node")
    case True
    with Cons.prems(2) node have "int node \<in> set order" unfolding bfs_inv_def by blast
    with Cons.IH [OF Cons.prems(1,2) rest] node True show ?thesis by auto
  next
    case False
    from node have rng: "0 \<le> int node" "int node < int (length visited)" by simp_all
    from Cons.prems(2) have "bfs_inv visited (order @ [])" by simp
    from bfs_inv_mark [OF this rng] False
    have inv1: "bfs_inv (visited[node := True]) (order @ [int node])" by simp
    from Cons.prems(1)
    have adj1: "\<forall>s. \<forall>d\<in>set (adjacency s). 0 \<le> d \<and> d < int (length (visited[node := True]))" by simp
    from bfs_while_inv [OF adj1 inv1]
    obtain visited1 order1 where
      w: "bfs_while adjacency (visited[node := True], [int node], order) = Inr (visited1, order1)"
      and len1: "length visited1 = length visited"
      and inv2: "bfs_inv visited1 order1"
      and sub1: "set (order @ [int node]) \<subseteq> set order1" by auto
    from Cons.prems(1) len1 have adj2: "\<forall>s. \<forall>d\<in>set (adjacency s). 0 \<le> d \<and> d < int (length visited1)" by simp
    from rest len1 have rest2: "\<forall>n\<in>set rank. n < length visited1" by simp
    from Cons.IH [OF adj2 inv2 rest2] w len1 sub1 node False show ?thesis by auto
  qed
qed

lemma bfs_inv_init: "bfs_inv (replicate n False) []"
  by (simp add: bfs_inv_def)

lemma np_argsort_ok_set: "np_argsort_ok ds rank \<Longrightarrow> set rank = {0..<length ds}"
proof -
  assume "np_argsort_ok ds rank"
  then have "sort rank = [0..<length ds]" by (simp add: np_argsort_ok_def)
  then have "set (sort rank) = set [0..<length ds]" by simp
  then show ?thesis by simp
qed

lemma bfs_permutation:
  assumes rank: "set rank = {0..<length pos_np}"
    and dst: "\<forall>(src, dst)\<in>set edges_np. 0 \<le> dst \<and> dst < int (length pos_np)"
  shows "\<exists>order. sort_nodes_and_edges_bfs rank pos_np edges_np = Inr order
           \<and> length order = length pos_np \<and> distinct order
           \<and> set order = {0..<int (length pos_np)}"
proof -
  let ?N = "length pos_np"
  let ?adj = "build_adjacency edges_np"
  let ?v0 = "replicate ?N False"
  from dst have adj: "\<forall>s. \<forall>d\<in>set (?adj s). 0 \<le> d \<and> d < int (length ?v0)"
    by (auto simp: build_adjacency_eq)
  from rank have rk: "\<forall>n\<in>set rank. n < length ?v0" by simp
  from bfs_seeds_inv [OF adj bfs_inv_init rk]
  obtain visited' order' where
    s: "bfs_seeds ?adj rank (?v0, []) = Inr (visited', order')"
    and len: "length visited' = ?N"
    and inv: "bfs_inv visited' order'"
    and sub: "int ` set rank \<subseteq> set order'" by auto
  from inv len have up: "set order' \<subseteq> {0..<int ?N}" and d: "distinct order'"
    unfolding bfs_inv_def by auto
  have "{0..<int ?N} \<subseteq> int ` {0..<?N}"
  proof
    fix i assume "i \<in> {0..<int ?N}"
    then have "i = int (nat i)" "nat i \<in> {0..<?N}" by auto
    then show "i \<in> int ` {0..<?N}" by blast
  qed
  with sub rank up have eq: "set order' = {0..<int ?N}" by auto
  from d have "length order' = card (set order')" by (simp add: distinct_card)
  with eq have "length order' = ?N" by simp
  with s d eq show ?thesis by (simp add: sort_nodes_and_edges_bfs_def)
qed

lemma bfs_seeds_first:
  "node < length visited \<Longrightarrow> \<not> visited ! node \<Longrightarrow>
     bfs_while adjacency (visited[node := True], [int node], new_order) = Inr st \<Longrightarrow>
     bfs_seeds adjacency (node # rest) (visited, new_order) = bfs_seeds adjacency rest st"
  by (simp del: bfs_while.simps)

lemma bfs_seeds_all_visited:
  "\<forall>b\<in>set visited. b \<Longrightarrow> \<forall>n\<in>set ns. n < length visited \<Longrightarrow>
     bfs_seeds adjacency ns (visited, new_order) = Inr (visited, new_order)"
proof (induction ns)
  case Nil
  then show ?case by simp
next
  case (Cons a ns)
  from Cons.prems have "a < length visited" by simp
  with Cons.prems(1) have "visited ! a" by (meson nth_mem)
  moreover from Cons.prems have "\<forall>n\<in>set ns. n < length visited" by simp
  from Cons.IH [OF Cons.prems(1) this]
  have "bfs_seeds adjacency ns (visited, new_order) = Inr (visited, new_order)" .
  ultimately show ?case using \<open>a < length visited\<close> by simp
qed

lemma np_argsort_ok_sorted:
  "np_argsort_ok ds rank \<Longrightarrow> sorted (map (\<lambda>i. ds ! i) rank)"
  by (simp add: np_argsort_ok_def)

lemma np_argsort_ok_length: "np_argsort_ok ds rank \<Longrightarrow> length rank = length ds"
proof -
  assume "np_argsort_ok ds rank"
  then have "sort rank = [0..<length ds]" by (simp add: np_argsort_ok_def)
  then have "length (sort rank) = length [0..<length ds]" by simp
  then show ?thesis by simp
qed

lemma np_argsort_ok_mem: "np_argsort_ok ds rank \<Longrightarrow> (n \<in> set rank) = (n < length ds)"
proof -
  assume "np_argsort_ok ds rank"
  then have "set rank = {0..<length ds}" by (rule np_argsort_ok_set)
  then have "(n \<in> set rank) = (n \<in> {0..<length ds})" by (rule arg_cong)
  then show ?thesis by simp
qed

lemma np_argsort_ok_head_least:
  assumes "np_argsort_ok ds (r0 # rest)" "k < length ds"
  shows "ds ! r0 \<le> ds ! k"
proof -
  from assms have "k \<in> set (r0 # rest)" by (simp only: np_argsort_ok_mem)
  then have k: "k = r0 \<or> k \<in> set rest" by simp
  from assms(1) have "sorted (map (\<lambda>i. ds ! i) (r0 # rest))" by (rule np_argsort_ok_sorted)
  then have "\<forall>x\<in>set rest. ds ! r0 \<le> ds ! x" by simp
  with k show ?thesis by blast
qed

lemma length_distances: "length (distances pos_np) = length pos_np"
  by (simp add: distances_def)

lemma visit_neighbors_out_of_range:
  "\<not> (- int (length visited) \<le> d \<and> d < int (length visited)) \<Longrightarrow>
     visit_neighbors (d # rest) (visited, queue) = Inl IndexError"
  by (auto simp: np_index_def)

section \<open>Properties of the rounding\<close>

lemma round_even_of_int: "round_even (of_int z) = z"
  by (simp add: round_even_def)

lemma round_even_error: "\<bar>of_int (round_even y) - y\<bar> \<le> 1 / 2"
proof -
  have "of_int \<lfloor>y\<rfloor> \<le> y" "y < of_int \<lfloor>y\<rfloor> + 1" by linarith+
  then show ?thesis by (auto simp: round_even_def Let_def)
qed

lemma round_even_nonneg: "0 \<le> y \<Longrightarrow> 0 \<le> round_even y"
  by (auto simp: round_even_def Let_def)

lemma round_even_le: "y \<le> of_int z \<Longrightarrow> round_even y \<le> z"
proof -
  assume le: "y \<le> of_int z"
  show ?thesis
  proof (cases "y = of_int z")
    case True
    then show ?thesis by (simp add: round_even_of_int)
  next
    case False
    with le have "y < of_int z" by simp
    then have "\<lfloor>y\<rfloor> < z" by (simp add: floor_less_iff)
    then have "\<lfloor>y\<rfloor> + 1 \<le> z" by simp
    then show ?thesis by (auto simp: round_even_def Let_def)
  qed
qed

lemma ulp_pos: "0 < ulp p x"
  by (simp add: ulp_def)

lemma exponent_lower: "x \<noteq> 0 \<Longrightarrow> 2 powr of_int \<lfloor>log 2 \<bar>x\<bar>\<rfloor> \<le> \<bar>x\<bar>"
proof -
  assume "x \<noteq> 0"
  then have pos: "0 < \<bar>x\<bar>" by simp
  have "\<lfloor>log 2 \<bar>x\<bar>\<rfloor> = \<lfloor>log 2 \<bar>x\<bar>\<rfloor>" ..
  with pos show ?thesis by (simp only: floor_log_eq_powr_iff [OF pos, of 2, simplified])
qed

lemma exponent_upper: "x \<noteq> 0 \<Longrightarrow> \<bar>x\<bar> < 2 powr (of_int \<lfloor>log 2 \<bar>x\<bar>\<rfloor> + 1)"
proof -
  assume "x \<noteq> 0"
  then have pos: "0 < \<bar>x\<bar>" by simp
  have "\<lfloor>log 2 \<bar>x\<bar>\<rfloor> = \<lfloor>log 2 \<bar>x\<bar>\<rfloor>" ..
  with pos show ?thesis by (simp only: floor_log_eq_powr_iff [OF pos, of 2, simplified])
qed

lemma exponent_eq:
  "2 powr of_int e \<le> \<bar>x\<bar> \<Longrightarrow> \<bar>x\<bar> < 2 powr (of_int e + 1) \<Longrightarrow> \<lfloor>log 2 \<bar>x\<bar>\<rfloor> = e"
proof -
  assume a: "2 powr of_int e \<le> \<bar>x\<bar>" "\<bar>x\<bar> < 2 powr (of_int e + 1)"
  have "0 < (2::real) powr of_int e" by simp
  with a(1) have pos: "0 < \<bar>x\<bar>" by linarith
  from a show ?thesis by (simp add: floor_log_eq_powr_iff [OF pos])
qed

lemma fl_round_0: "fl_round p 0 = 0"
  by (simp add: fl_round_def)

lemma fl_round_minus: "fl_round p (- x) = - fl_round p x"
  by (simp add: fl_round_def ulp_def sgn_minus)

lemma ulp_le: "x \<noteq> 0 \<Longrightarrow> ulp p x / 2 \<le> \<bar>x\<bar> / 2 ^ p"
proof -
  assume x: "x \<noteq> 0"
  have "ulp p x = 2 powr (of_int \<lfloor>log 2 \<bar>x\<bar>\<rfloor> + (- real p) + 1)"
    by (simp add: ulp_def)
  also have "\<dots> = 2 powr of_int \<lfloor>log 2 \<bar>x\<bar>\<rfloor> * 2 powr (- real p) * 2 powr 1"
    by (simp only: powr_add)
  also have "\<dots> = 2 powr of_int \<lfloor>log 2 \<bar>x\<bar>\<rfloor> / 2 ^ p * 2"
    by (simp add: powr_minus powr_realpow divide_inverse)
  finally have "ulp p x / 2 = 2 powr of_int \<lfloor>log 2 \<bar>x\<bar>\<rfloor> / 2 ^ p" by simp
  also from exponent_lower [OF x] have "\<dots> \<le> \<bar>x\<bar> / 2 ^ p"
    by (simp add: divide_right_mono)
  finally show ?thesis .
qed

lemma fl_round_error: "\<bar>fl_round p x - x\<bar> \<le> \<bar>x\<bar> / 2 ^ p"
proof (cases "x = 0")
  case True
  then show ?thesis by (simp add: fl_round_0)
next
  case False
  let ?u = "ulp p x"
  let ?M = "of_int (round_even (\<bar>x\<bar> / ?u)) :: real"
  have u: "0 < ?u" by (rule ulp_pos)
  have "\<bar>?M - \<bar>x\<bar> / ?u\<bar> \<le> 1 / 2" by (rule round_even_error)
  with u have "\<bar>?M - \<bar>x\<bar> / ?u\<bar> * ?u \<le> 1 / 2 * ?u" by (simp add: mult_right_mono)
  moreover have "\<bar>?M - \<bar>x\<bar> / ?u\<bar> * ?u = \<bar>?M * ?u - \<bar>x\<bar>\<bar>"
  proof -
    have "\<bar>?M - \<bar>x\<bar> / ?u\<bar> * ?u = \<bar>(?M - \<bar>x\<bar> / ?u) * ?u\<bar>"
      using u by (simp add: abs_mult)
    also have "(?M - \<bar>x\<bar> / ?u) * ?u = ?M * ?u - \<bar>x\<bar>"
      using u by (simp add: algebra_simps)
    finally show ?thesis .
  qed
  ultimately have a: "\<bar>?M * ?u - \<bar>x\<bar>\<bar> \<le> ?u / 2" by simp
  have "fl_round p x - x = sgn x * (?M * ?u - \<bar>x\<bar>)"
    by (simp add: fl_round_def right_diff_distrib mult_sgn_abs)
  then have "\<bar>fl_round p x - x\<bar> = \<bar>?M * ?u - \<bar>x\<bar>\<bar>"
    using False by (simp add: abs_mult abs_sgn_eq)
  with a ulp_le [OF False, of p] show ?thesis by linarith
qed

lemma ulp_double: "x \<noteq> 0 \<Longrightarrow> ulp p (2 * x) = 2 * ulp p x"
proof -
  assume x: "x \<noteq> 0"
  let ?e = "\<lfloor>log 2 \<bar>x\<bar>\<rfloor>"
  from exponent_lower [OF x] have "2 powr of_int (?e + 1) \<le> \<bar>2 * x\<bar>"
    by (simp add: powr_add)
  moreover from exponent_upper [OF x] have "\<bar>2 * x\<bar> < 2 powr (of_int (?e + 1) + 1)"
    by (simp add: powr_add)
  ultimately have "\<lfloor>log 2 \<bar>2 * x\<bar>\<rfloor> = ?e + 1" by (rule exponent_eq)
  then show ?thesis by (simp add: ulp_def powr_add)
qed

lemma fl_round_double: "fl_round p (2 * x) = 2 * fl_round p x"
proof (cases "x = 0")
  case True
  then show ?thesis by (simp add: fl_round_0)
next
  case False
  have "\<bar>2 * x\<bar> / (2 * ulp p x) = \<bar>x\<bar> / ulp p x" by (simp add: abs_mult)
  with False show ?thesis by (simp add: fl_round_def ulp_double sgn_mult)
qed

lemma fl_round_repr:
  assumes "\<bar>m\<bar> < 2 ^ p"
  shows "fl_round p (of_int m * 2 powr of_int k) = of_int m * 2 powr of_int k"
proof (cases "m = 0")
  case True
  then show ?thesis by (simp add: fl_round_0)
next
  case False
  let ?x = "of_int m * 2 powr of_int k :: real"
  let ?e = "\<lfloor>log 2 \<bar>?x\<bar>\<rfloor>"
  from False have x: "?x \<noteq> 0" by simp
  have ax: "\<bar>?x\<bar> = of_int \<bar>m\<bar> * 2 powr of_int k" by (simp add: abs_mult)
  from assms have "(of_int \<bar>m\<bar> :: real) < of_int (2 ^ p)" by (simp only: of_int_less_iff)
  then have "(of_int \<bar>m\<bar> :: real) < 2 powr real p" by (simp add: powr_realpow)
  then have "\<bar>?x\<bar> < 2 powr real p * 2 powr of_int k" by (simp add: ax)
  then have "\<bar>?x\<bar> < 2 powr (real p + of_int k)" by (simp add: powr_add)
  with exponent_lower [OF x] have "2 powr of_int ?e < (2::real) powr (real p + of_int k)"
    by linarith
  then have "of_int ?e < real p + of_int k" by simp
  then have "?e < int p + k" by linarith
  then have j: "0 \<le> k - ?e + int p - 1" by simp
  define j where "j = nat (k - ?e + int p - 1)"
  with j have jj: "real j = of_int k - of_int ?e + real p - 1" by simp
  have u: "ulp p ?x = 2 powr (of_int ?e - real p + 1)" by (simp add: ulp_def)
  have "\<bar>?x\<bar> / ulp p ?x = of_int \<bar>m\<bar> * (2 powr of_int k / 2 powr (of_int ?e - real p + 1))"
    by (simp only: ax u times_divide_eq_right)
  also have "2 powr of_int k / 2 powr (of_int ?e - real p + 1) = (2::real) powr real j"
    by (simp only: powr_diff [symmetric] jj) (simp add: algebra_simps)
  also have "\<dots> = 2 ^ j" by (simp add: powr_realpow)
  finally have q: "\<bar>?x\<bar> / ulp p ?x = of_int (\<bar>m\<bar> * 2 ^ j)" by simp
  have "of_int (round_even (\<bar>?x\<bar> / ulp p ?x)) * ulp p ?x = (\<bar>?x\<bar> / ulp p ?x) * ulp p ?x"
    by (simp only: q round_even_of_int)
  also have "\<dots> = \<bar>?x\<bar>" using ulp_pos [of p ?x] by simp
  finally have "fl_round p ?x = sgn ?x * \<bar>?x\<bar>" by (simp only: fl_round_def)
  then show ?thesis by (simp only: mult_sgn_abs)
qed

lemma fl_round_pow2: "0 < p \<Longrightarrow> fl_round p (2 powr of_int k) = 2 powr of_int k"
proof -
  assume "0 < p"
  then have "\<bar>1 :: int\<bar> < 2 ^ p" by simp
  from fl_round_repr [OF this, of k] show ?thesis by simp
qed

lemma fl_round_idem: "0 < p \<Longrightarrow> fl_round p (fl_round p x) = fl_round p x"
proof (cases "x = 0")
  case True
  then show ?thesis by (simp add: fl_round_0)
next
  case False
  assume p: "0 < p"
  let ?e = "\<lfloor>log 2 \<bar>x\<bar>\<rfloor>"
  let ?u = "ulp p x"
  let ?M = "round_even (\<bar>x\<bar> / ?u)"
  have u: "?u = 2 powr of_int (?e - int p + 1)" by (simp add: ulp_def)
  have upos: "0 < ?u" by (rule ulp_pos)
  have M0: "0 \<le> ?M" using upos by (intro round_even_nonneg) simp
  have "\<bar>x\<bar> < 2 powr (of_int ?e + 1)" using False by (rule exponent_upper)
  also have "(2::real) powr (of_int ?e + 1) = 2 powr real p * ?u"
    by (simp add: ulp_def powr_add [symmetric])
  finally have "\<bar>x\<bar> / ?u < 2 powr real p" using upos by (simp add: pos_divide_less_eq)
  then have "\<bar>x\<bar> / ?u \<le> of_int (2 ^ p)" by (simp add: powr_realpow)
  then have Mp: "?M \<le> 2 ^ p" by (rule round_even_le)
  have fx: "fl_round p x = sgn x * (of_int ?M * ?u)" by (simp add: fl_round_def)
  show ?thesis
  proof (cases "?M = 2 ^ p")
    case True
    have m: "(of_int ?M :: real) = 2 powr real p" using True by (simp add: powr_realpow)
    have "of_int ?M * ?u = (2::real) powr real p * 2 powr of_int (?e - int p + 1)"
      by (simp only: m) (simp only: u)
    also have "\<dots> = 2 powr of_int (?e + 1)" by (simp add: powr_add [symmetric])
    finally have v: "of_int ?M * ?u = 2 powr of_int (?e + 1)" .
    have "fl_round p (2 powr of_int (?e + 1)) = 2 powr of_int (?e + 1)"
      using p by (rule fl_round_pow2)
    moreover have "x < 0 \<or> 0 < x" using False by auto
    ultimately show ?thesis
      by (auto simp only: fx v sgn_neg sgn_pos mult_minus1 mult_1 fl_round_minus)
  next
    case F: False
    with Mp have lt: "?M < 2 ^ p" by simp
    have "x < 0 \<or> 0 < x" using False by auto
    then show ?thesis
    proof
      assume "0 < x"
      then have "fl_round p x = of_int ?M * 2 powr of_int (?e - int p + 1)"
        by (simp only: fx u sgn_pos mult_1)
      moreover from M0 lt have "\<bar>?M\<bar> < 2 ^ p" by simp
      ultimately show ?thesis by (simp only: fl_round_repr)
    next
      assume "x < 0"
      then have "fl_round p x = of_int (- ?M) * 2 powr of_int (?e - int p + 1)"
        by (simp add: fx u)
      moreover from M0 lt have "\<bar>- ?M\<bar> < 2 ^ p" by simp
      ultimately show ?thesis by (simp only: fl_round_repr)
    qed
  qed
qed

lemma fl_round_1: "0 < p \<Longrightarrow> fl_round p 1 = 1"
  using fl_round_pow2 [of p 0] by simp

lemma fl_round_2: "0 < p \<Longrightarrow> fl_round p 2 = 2"
  using fl_round_pow2 [of p 1] by simp

lemma fl_round_nonneg: "0 \<le> x \<Longrightarrow> 0 \<le> fl_round p x"
proof -
  assume x: "0 \<le> x"
  have "0 \<le> round_even (\<bar>x\<bar> / ulp p x)"
    using ulp_pos [of p x] by (intro round_even_nonneg) simp
  with x ulp_pos [of p x] show ?thesis
    by (simp add: fl_round_def sgn_if)
qed

lemma fl_round_error24: "24 \<le> p \<Longrightarrow> \<bar>fl_round p x - x\<bar> \<le> \<bar>x\<bar> / 16777216"
proof -
  assume p: "24 \<le> p"
  then have "(2::real) ^ 24 \<le> 2 ^ p" by (intro power_increasing) simp_all
  then have "\<bar>x\<bar> / 2 ^ p \<le> \<bar>x\<bar> / 2 ^ 24" by (intro divide_left_mono) simp_all
  then have "\<bar>x\<bar> / 2 ^ p \<le> \<bar>x\<bar> / 16777216" by simp
  with fl_round_error [of p x] show ?thesis by linarith
qed

lemma fl_round_bounds_pos:
  "24 \<le> p \<Longrightarrow> 0 \<le> x \<Longrightarrow>
     x - x / 16777216 \<le> fl_round p x \<and> fl_round p x \<le> x + x / 16777216"
proof -
  assume p: "24 \<le> p" and x: "0 \<le> x"
  from fl_round_error24 [OF p, of x] x have "\<bar>fl_round p x - x\<bar> \<le> x / 16777216" by simp
  then have "fl_round p x - x \<le> x / 16777216" "- (fl_round p x - x) \<le> x / 16777216"
    by (simp_all only: abs_le_iff)
  then show ?thesis by linarith
qed

lemma fl_round_bounds_neg:
  "24 \<le> p \<Longrightarrow> x \<le> 0 \<Longrightarrow>
     x + x / 16777216 \<le> fl_round p x \<and> fl_round p x \<le> x - x / 16777216"
proof -
  assume p: "24 \<le> p" and x: "x \<le> 0"
  from x have "0 \<le> - x" by simp
  from fl_round_bounds_pos [OF p this] show ?thesis by (simp add: fl_round_minus)
qed

lemma float64_0: "float64 0 = 0"
  by (simp add: float64_def fl_round_0)

lemma float64_1: "float64 1 = 1"
  by (simp add: float64_def fl_round_1)

lemma float64_2: "float64 2 = 2"
  by (simp add: float64_def fl_round_2)

lemma float64_minus: "float64 (- x) = - float64 x"
  by (simp add: float64_def fl_round_minus)

lemma float64_nonneg: "0 \<le> x \<Longrightarrow> 0 \<le> float64 x"
  by (simp add: float64_def fl_round_nonneg)

lemma float64_np_pi: "float64 np_pi = np_pi"
  by (simp add: np_pi_def float64_def fl_round_idem)

lemma float64_double_np_pi: "float64 (2 * np_pi) = 2 * np_pi"
  by (simp add: float64_def fl_round_double float64_np_pi [unfolded float64_def])

lemma np_pi_error: "\<bar>np_pi - pi\<bar> \<le> pi / 2 ^ 53"
  using fl_round_error [of 53 pi] by (simp add: np_pi_def float64_def)

lemma np_pi_bounds: "3 / 2 < np_pi \<and> np_pi < 5"
proof -
  from np_pi_error have e: "\<bar>np_pi - pi\<bar> \<le> pi / 9007199254740992" by simp
  from e pi_ge_two have "3 / 2 < np_pi" by linarith
  moreover from e pi_less_4 have "np_pi < 5" by linarith
  ultimately show ?thesis ..
qed

text \<open>
  The rounding of a given number, from its binade and the integer nearest to its quotient
  by the unit in the last place; a quotient half-way between two integers goes to the
  even one.
\<close>

lemma round_even_eq: "of_int n - 1 / 2 < y \<Longrightarrow> y < of_int n + 1 / 2 \<Longrightarrow> round_even y = n"
proof -
  assume a: "of_int n - 1 / 2 < y" "y < of_int n + 1 / 2"
  show ?thesis
  proof (cases "of_int n \<le> y")
    case True
    with a have "\<lfloor>y\<rfloor> = n" by (intro floor_unique) simp_all
    with a show ?thesis by (simp add: round_even_def Let_def)
  next
    case False
    with a have "\<lfloor>y\<rfloor> = n - 1" by (intro floor_unique) simp_all
    with a show ?thesis by (simp add: round_even_def Let_def)
  qed
qed

lemma round_even_tie: "odd m \<Longrightarrow> round_even (of_int m + 1 / 2) = m + 1"
proof -
  assume o: "odd m"
  have "\<lfloor>of_int m + (1 / 2 :: real)\<rfloor> = m" by (intro floor_unique) simp_all
  with o show ?thesis by (simp add: round_even_def Let_def)
qed

lemma fl_round_eval:
  assumes "2 powr of_int e \<le> \<bar>x\<bar>" and "\<bar>x\<bar> < 2 powr (of_int e + 1)"
    and "of_int n - 1 / 2 < \<bar>x\<bar> / 2 powr (of_int e - real p + 1)"
    and "\<bar>x\<bar> / 2 powr (of_int e - real p + 1) < of_int n + 1 / 2"
  shows "fl_round p x = sgn x * (of_int n * 2 powr (of_int e - real p + 1))"
proof -
  from assms(1,2) have "\<lfloor>log 2 \<bar>x\<bar>\<rfloor> = e" by (rule exponent_eq)
  then have u: "ulp p x = 2 powr (of_int e - real p + 1)" by (simp add: ulp_def)
  from assms(3,4) have "round_even (\<bar>x\<bar> / 2 powr (of_int e - real p + 1)) = n"
    by (rule round_even_eq)
  then show ?thesis by (simp add: fl_round_def u)
qed

lemma float64_eval:
  assumes "0 < x"
    and "lo = 2 powr of_int e" and "hi = 2 powr (of_int e + 1)" and "u = 2 powr (of_int e - 52)"
    and "lo \<le> x" and "x < hi"
    and "(of_int n - 1 / 2) * u < x" and "x < (of_int n + 1 / 2) * u"
  shows "float64 x = of_int n * u"
proof -
  have up: "0 < u" by (simp add: assms(4))
  have ue: "2 powr (of_int e - real 53 + 1) = u" by (simp add: assms(4))
  from assms(1) have ax: "\<bar>x\<bar> = x" by simp
  have 1: "2 powr of_int e \<le> \<bar>x\<bar>" using assms(2,5) by (simp add: ax)
  have 2: "\<bar>x\<bar> < 2 powr (of_int e + 1)" using assms(3,6) by (simp add: ax)
  have 3: "of_int n - 1 / 2 < \<bar>x\<bar> / 2 powr (of_int e - real 53 + 1)"
    unfolding ue ax using assms(7) up by (simp add: pos_less_divide_eq)
  have 4: "\<bar>x\<bar> / 2 powr (of_int e - real 53 + 1) < of_int n + 1 / 2"
    unfolding ue ax using assms(8) up by (simp add: pos_divide_less_eq)
  from fl_round_eval [OF 1 2 3 4] assms(1) show ?thesis
    unfolding ue float64_def by simp
qed

lemma float64_eval_tie:
  assumes "0 < x"
    and "lo = 2 powr of_int e" and "hi = 2 powr (of_int e + 1)" and "u = 2 powr (of_int e - 52)"
    and "lo \<le> x" and "x < hi"
    and "x = (of_int m + 1 / 2) * u" and "odd m"
  shows "float64 x = of_int (m + 1) * u"
proof -
  have up: "0 < u" by (simp add: assms(4))
  from assms(1) have ax: "\<bar>x\<bar> = x" by simp
  have 1: "2 powr of_int e \<le> \<bar>x\<bar>" using assms(2,5) by (simp add: ax)
  have 2: "\<bar>x\<bar> < 2 powr (of_int e + 1)" using assms(3,6) by (simp add: ax)
  from 1 2 have "\<lfloor>log 2 \<bar>x\<bar>\<rfloor> = e" by (rule exponent_eq)
  then have u: "ulp 53 x = u" by (simp add: ulp_def assms(4))
  have "x / u = of_int m + 1 / 2" using up by (simp add: assms(7))
  then have "round_even (\<bar>x\<bar> / ulp 53 x) = m + 1"
    by (simp only: ax u round_even_tie [OF assms(8)])
  with assms(1) show ?thesis
    unfolding float64_def fl_round_def u by simp
qed

text \<open>
  Eight digits of \<open>\<pi>\<close>, from Machin's formula and the alternating series of the arc
  tangent, and the float32 nearest to \<^verbatim>\<open>np.pi\<close>, which is larger than \<^verbatim>\<open>np.pi\<close>.
\<close>

lemma arctan_partial_sums:
  assumes x: "0 \<le> x" "x \<le> (1::real)"
  shows "(\<Sum>i<2 * n. (- 1) ^ i * (1 / real (i * 2 + 1) * x ^ (i * 2 + 1))) \<le> arctan x"
    and "arctan x \<le> (\<Sum>i<2 * n + 1. (- 1) ^ i * (1 / real (i * 2 + 1) * x ^ (i * 2 + 1)))"
proof -
  let ?a = "\<lambda>n. 1 / real (n * 2 + 1) * x ^ (n * 2 + 1)"
  from x have ax: "\<bar>x\<bar> \<le> 1" by simp
  have z: "?a \<longlonglongrightarrow> 0" using ax by (rule zeroseq_arctan_series)
  have pos: "0 \<le> ?a n" for n using x by simp
  have mono: "?a (Suc n) \<le> ?a n" for n
  proof -
    have "x ^ (Suc n * 2 + 1) \<le> x ^ (n * 2 + 1)"
      using x by (intro power_decreasing) simp_all
    moreover have "1 / real (Suc n * 2 + 1) \<le> 1 / real (n * 2 + 1)"
      by (intro divide_left_mono) simp_all
    ultimately show ?thesis using x by (intro mult_mono) simp_all
  qed
  have s: "arctan x = (\<Sum>k. (- 1) ^ k * ?a k)" using ax by (rule arctan_series)
  from summable_Leibniz'(2) [OF z pos mono, of n] s
  show "(\<Sum>i<2 * n. (- 1) ^ i * ?a i) \<le> arctan x" by simp
  from summable_Leibniz'(4) [OF z pos mono, of n] s
  show "arctan x \<le> (\<Sum>i<2 * n + 1. (- 1) ^ i * ?a i)" by simp
qed

lemma pi_digits: "314159264 / 100000000 < pi \<and> pi < 314159270 / 100000000"
proof -
  define l5 :: real where "l5 = 1/5 - (1/5)^3/3 + (1/5)^5/5 - (1/5)^7/7 + (1/5)^9/9 - (1/5)^11/11"
  define u5 :: real where "u5 = l5 + (1/5)^13/13"
  define l239 :: real where "l239 = 1/239 - (1/239)^3/3"
  define u239 :: real where "u239 = l239 + (1/239)^5/5"
  have x5: "0 \<le> (1 / 5 :: real)" "(1 / 5 :: real) \<le> 1" by simp_all
  have x239: "0 \<le> (1 / 239 :: real)" "(1 / 239 :: real) \<le> 1" by simp_all
  from arctan_partial_sums(1) [OF x5, of 3]
  have a: "l5 \<le> arctan (1 / 5)" by (simp add: l5_def eval_nat_numeral)
  from arctan_partial_sums(2) [OF x5, of 3]
  have b: "arctan (1 / 5) \<le> u5" by (simp add: u5_def l5_def eval_nat_numeral)
  from arctan_partial_sums(1) [OF x239, of 1]
  have c: "l239 \<le> arctan (1 / 239)" by (simp add: l239_def eval_nat_numeral)
  from arctan_partial_sums(2) [OF x239, of 1]
  have d: "arctan (1 / 239) \<le> u239" by (simp add: u239_def l239_def eval_nat_numeral)
  have m: "pi = 16 * arctan (1 / 5) - 4 * arctan (1 / 239)" using machin by simp
  have "314159264 / 100000000 < 16 * l5 - 4 * u239"
    by (simp add: l5_def u239_def l239_def eval_nat_numeral)
  with a d m have lo: "314159264 / 100000000 < pi" by linarith
  have "16 * u5 - 4 * l239 < 314159270 / 100000000"
    by (simp add: l5_def u5_def l239_def eval_nat_numeral)
  with b c m have hi: "pi < 314159270 / 100000000" by linarith
  from lo hi show ?thesis ..
qed

lemma np_pi_digits: "314159263 / 100000000 < np_pi \<and> np_pi < 314159271 / 100000000"
proof -
  from np_pi_error have e: "\<bar>np_pi - pi\<bar> \<le> pi / 9007199254740992" by simp
  from pi_digits have p: "314159264 / 100000000 < pi" "pi < 314159270 / 100000000" by simp_all
  from e p have "314159263 / 100000000 < np_pi" by linarith
  moreover from e p have "np_pi < 314159271 / 100000000" by linarith
  ultimately show ?thesis ..
qed

lemma two_powr_minus_22: "(2::real) powr - 22 = 1 / 4194304"
  by (simp add: powr_minus_divide)

lemma float32_np_pi: "fl_round 24 np_pi = 13176795 / 4194304"
proof -
  from np_pi_digits have d: "314159263 / 100000000 < np_pi" "np_pi < 314159271 / 100000000"
    by simp_all
  have u: "(2::real) powr (of_int 1 - real 24 + 1) = 1 / 4194304"
    using two_powr_minus_22 by simp
  from d have 1: "2 powr of_int 1 \<le> \<bar>np_pi\<bar>" by simp
  from d have 2: "\<bar>np_pi\<bar> < 2 powr (of_int 1 + 1)" by simp
  from d have 3: "of_int 13176795 - 1 / 2 < \<bar>np_pi\<bar> / 2 powr (of_int 1 - real 24 + 1)"
    unfolding u by simp
  from d have 4: "\<bar>np_pi\<bar> / 2 powr (of_int 1 - real 24 + 1) < of_int 13176795 + 1 / 2"
    unfolding u by simp
  from d have s: "sgn np_pi = 1" by simp
  from fl_round_eval [OF 1 2 3 4] show ?thesis unfolding u s by simp
qed

section \<open>Properties of the spherical sequencer\<close>

lemma insort_key_pair_sorted:
  fixes f :: "'a \<Rightarrow> 'b::linorder" and g :: "'a \<Rightarrow> 'c::linorder"
  assumes "sorted (map (\<lambda>x. (f x, g x)) S)" and "\<forall>y\<in>set S. g z \<le> g y"
  shows "sorted (map (\<lambda>x. (f x, g x)) (insort_key f z S))"
  using assms
proof (induction S)
  case Nil
  then show ?case by simp
next
  case (Cons y S)
  show ?case
  proof (cases "f z \<le> f y")
    case True
    from Cons.prems(1) have "\<forall>w\<in>set S. f y \<le> f w" by auto
    with True have "\<forall>w\<in>set (y # S). f z \<le> f w" by auto
    with Cons.prems(2) have "\<forall>w\<in>set (y # S). (f z, g z) \<le> (f w, g w)" by auto
    with True Cons.prems(1) show ?thesis by simp
  next
    case False
    then have lt: "f y < f z" by simp
    from Cons.prems have "sorted (map (\<lambda>x. (f x, g x)) (insort_key f z S))"
      by (intro Cons.IH) simp_all
    moreover from Cons.prems(1) lt
    have "\<forall>w\<in>set (insort_key f z S). (f y, g y) \<le> (f w, g w)"
      by (auto simp: set_insort_key)
    ultimately show ?thesis using False by simp
  qed
qed

lemma sort_key_pair_sorted:
  fixes f :: "'a \<Rightarrow> 'b::linorder" and g :: "'a \<Rightarrow> 'c::linorder"
  shows "sorted (map g xs) \<Longrightarrow> sorted (map (\<lambda>x. (f x, g x)) (sort_key f xs))"
proof (induction xs)
  case Nil
  then show ?case by simp
next
  case (Cons x xs)
  from Cons.prems have "\<forall>y\<in>set (sort_key f xs). g x \<le> g y" by simp
  moreover from Cons have "sorted (map (\<lambda>x. (f x, g x)) (sort_key f xs))" by simp
  ultimately show ?case by (simp add: insort_key_pair_sorted)
qed

lemma sort_key_twice:
  fixes f :: "'a \<Rightarrow> 'b::linorder" and g :: "'a \<Rightarrow> 'c::linorder"
  shows "sort_key f (sort_key g xs) = sort_key (\<lambda>x. (f x, g x)) xs"
proof (rule sym, rule properties_for_sort_key)
  show "mset (sort_key f (sort_key g xs)) = mset xs" by simp
next
  fix k
  have "filter (\<lambda>x. f k = f x \<and> g k = g x) (sort_key f (sort_key g xs))
          = filter (\<lambda>x. g x = g k) (filter (\<lambda>x. f x = f k) (sort_key f (sort_key g xs)))"
    by (auto intro: filter_cong)
  also have "\<dots> = filter (\<lambda>x. g x = g k) (filter (\<lambda>x. f x = f k) (sort_key g xs))"
    by (simp only: sort_key_stable)
  also have "\<dots> = filter (\<lambda>x. f x = f k) (filter (\<lambda>x. g x = g k) (sort_key g xs))"
    by (auto intro: filter_cong)
  also have "\<dots> = filter (\<lambda>x. f x = f k) (filter (\<lambda>x. g x = g k) xs)"
    by (simp only: sort_key_stable)
  also have "\<dots> = filter (\<lambda>x. f k = f x \<and> g k = g x) xs"
    by (auto intro: filter_cong)
  finally show "filter (\<lambda>x. (f k, g k) = (f x, g x)) (sort_key f (sort_key g xs))
                  = filter (\<lambda>x. (f k, g k) = (f x, g x)) xs" by simp
next
  show "sorted (map (\<lambda>x. (f x, g x)) (sort_key f (sort_key g xs)))"
    by (rule sort_key_pair_sorted) simp
qed

lemma sort_nodes_and_edges_sort_key:
  "sort_nodes_and_edges fa pos_np edges_np = sort_key (lex_key fa pos_np) [0..<length pos_np]"
proof -
  have "lex_key fa pos_np =
          (\<lambda>i. (map (\<lambda>c. f_sort_pos fa (fst c)) (spherical_coords fa pos_np) ! i,
                map (\<lambda>c. f_sort_pos fa (fst (snd c))) (spherical_coords fa pos_np) ! i,
                map (\<lambda>c. f_sort_pos fa (snd (snd c))) (spherical_coords fa pos_np) ! i))"
    by (rule ext) (simp add: lex_key_def)
  then show ?thesis
    by (simp add: sort_nodes_and_edges_def np_lexsort_def Let_def sort_key_twice)
qed



lemma set_sort_nodes_and_edges:
  "set (sort_nodes_and_edges fa pos_np edges_np) = {0..<length pos_np}"
  by (simp add: sort_nodes_and_edges_sort_key)

lemma length_sort_nodes_and_edges:
  "length (sort_nodes_and_edges fa pos_np edges_np) = length pos_np"
  by (simp add: sort_nodes_and_edges_sort_key)

lemma distinct_sort_nodes_and_edges:
  "distinct (sort_nodes_and_edges fa pos_np edges_np)"
  by (simp add: sort_nodes_and_edges_sort_key)


lemma np_remainder_range: "0 < m \<Longrightarrow> 0 \<le> np_remainder a m \<and> np_remainder a m < m"
proof -
  assume m: "0 < m"
  from m have "of_int \<lfloor>a / m\<rfloor> * m \<le> a" by (rule floor_divide_lower)
  moreover from m have "a < (of_int \<lfloor>a / m\<rfloor> + 1) * m" by (rule floor_divide_upper)
  ultimately show ?thesis by (simp add: np_remainder_def algebra_simps)
qed

text \<open>
  The float64 radii of the points \<open>(9.9, 8.8, 0.8)\<close> and \<open>(0.8, 8.8, 9.9)\<close>, operation by
  operation: the three constants as floats, their squares, the two sums taken from the
  left in the order of each point, and the square roots. The sums differ in the last
  place, and so do the roots.
\<close>

lemma f64_99_10: "float64 (99 / 10) = 5573204538870989 / 562949953421312"
proof -
  have "float64 (99 / 10) = of_int 5573204538870989 * (1 / 562949953421312)"
  proof (rule float64_eval [where e = "3" and lo = "8" and hi = "16"])
    show "(0::real) < 99 / 10" by simp
    show "8 = (2::real) powr of_int (3)" by (simp add: powr_minus_divide)
    show "16 = (2::real) powr (of_int (3) + 1)" by (simp add: powr_minus_divide)
    show "(1 / 562949953421312) = (2::real) powr (of_int (3) - 52)" by (simp add: powr_minus_divide)
    show "(8::real) \<le> 99 / 10" by simp
    show "99 / 10 < (16::real)" by simp
    show "(of_int 5573204538870989 - 1 / 2) * (1 / 562949953421312) < (99 / 10 :: real)" by simp
    show "(99 / 10 :: real) < (of_int 5573204538870989 + 1 / 2) * (1 / 562949953421312)" by simp
  qed
  then show ?thesis by simp
qed

lemma f64_88_10: "float64 (88 / 10) = 2476979795053773 / 281474976710656"
proof -
  have "float64 (88 / 10) = of_int 4953959590107546 * (1 / 562949953421312)"
  proof (rule float64_eval [where e = "3" and lo = "8" and hi = "16"])
    show "(0::real) < 88 / 10" by simp
    show "8 = (2::real) powr of_int (3)" by (simp add: powr_minus_divide)
    show "16 = (2::real) powr (of_int (3) + 1)" by (simp add: powr_minus_divide)
    show "(1 / 562949953421312) = (2::real) powr (of_int (3) - 52)" by (simp add: powr_minus_divide)
    show "(8::real) \<le> 88 / 10" by simp
    show "88 / 10 < (16::real)" by simp
    show "(of_int 4953959590107546 - 1 / 2) * (1 / 562949953421312) < (88 / 10 :: real)" by simp
    show "(88 / 10 :: real) < (of_int 4953959590107546 + 1 / 2) * (1 / 562949953421312)" by simp
  qed
  then show ?thesis by simp
qed

lemma f64_8_10: "float64 (8 / 10) = 3602879701896397 / 4503599627370496"
proof -
  have "float64 (8 / 10) = of_int 7205759403792794 * (1 / 9007199254740992)"
  proof (rule float64_eval [where e = "-1" and lo = "(1 / 2)" and hi = "1"])
    show "(0::real) < 8 / 10" by simp
    show "(1 / 2) = (2::real) powr of_int (-1)" by (simp add: powr_minus_divide)
    show "1 = (2::real) powr (of_int (-1) + 1)" by (simp add: powr_minus_divide)
    show "(1 / 9007199254740992) = (2::real) powr (of_int (-1) - 52)" by (simp add: powr_minus_divide)
    show "((1 / 2)::real) \<le> 8 / 10" by simp
    show "8 / 10 < (1::real)" by simp
    show "(of_int 7205759403792794 - 1 / 2) * (1 / 9007199254740992) < (8 / 10 :: real)" by simp
    show "(8 / 10 :: real) < (of_int 7205759403792794 + 1 / 2) * (1 / 9007199254740992)" by simp
  qed
  then show ?thesis by simp
qed

lemma f64_sq_a: "float64 ((5573204538870989 / 562949953421312) * (5573204538870989 / 562949953421312)) = 6896840616852849 / 70368744177664"
proof -
  have "float64 ((5573204538870989 / 562949953421312) * (5573204538870989 / 562949953421312)) = of_int 6896840616852849 * (1 / 70368744177664)"
  proof (rule float64_eval [where e = "6" and lo = "64" and hi = "128"])
    show "(0::real) < (5573204538870989 / 562949953421312) * (5573204538870989 / 562949953421312)" by simp
    show "64 = (2::real) powr of_int (6)" by (simp add: powr_minus_divide)
    show "128 = (2::real) powr (of_int (6) + 1)" by (simp add: powr_minus_divide)
    show "(1 / 70368744177664) = (2::real) powr (of_int (6) - 52)" by (simp add: powr_minus_divide)
    show "(64::real) \<le> (5573204538870989 / 562949953421312) * (5573204538870989 / 562949953421312)" by simp
    show "(5573204538870989 / 562949953421312) * (5573204538870989 / 562949953421312) < (128::real)" by simp
    show "(of_int 6896840616852849 - 1 / 2) * (1 / 70368744177664) < ((5573204538870989 / 562949953421312) * (5573204538870989 / 562949953421312) :: real)" by simp
    show "((5573204538870989 / 562949953421312) * (5573204538870989 / 562949953421312) :: real) < (of_int 6896840616852849 + 1 / 2) * (1 / 70368744177664)" by simp
  qed
  then show ?thesis by simp
qed

lemma f64_sq_b: "float64 ((2476979795053773 / 281474976710656) * (2476979795053773 / 281474976710656)) = 5449355549118301 / 70368744177664"
proof -
  have "float64 ((2476979795053773 / 281474976710656) * (2476979795053773 / 281474976710656)) = of_int 5449355549118301 * (1 / 70368744177664)"
  proof (rule float64_eval [where e = "6" and lo = "64" and hi = "128"])
    show "(0::real) < (2476979795053773 / 281474976710656) * (2476979795053773 / 281474976710656)" by simp
    show "64 = (2::real) powr of_int (6)" by (simp add: powr_minus_divide)
    show "128 = (2::real) powr (of_int (6) + 1)" by (simp add: powr_minus_divide)
    show "(1 / 70368744177664) = (2::real) powr (of_int (6) - 52)" by (simp add: powr_minus_divide)
    show "(64::real) \<le> (2476979795053773 / 281474976710656) * (2476979795053773 / 281474976710656)" by simp
    show "(2476979795053773 / 281474976710656) * (2476979795053773 / 281474976710656) < (128::real)" by simp
    show "(of_int 5449355549118301 - 1 / 2) * (1 / 70368744177664) < ((2476979795053773 / 281474976710656) * (2476979795053773 / 281474976710656) :: real)" by simp
    show "((2476979795053773 / 281474976710656) * (2476979795053773 / 281474976710656) :: real) < (of_int 5449355549118301 + 1 / 2) * (1 / 70368744177664)" by simp
  qed
  then show ?thesis by simp
qed

lemma f64_sq_c: "float64 ((3602879701896397 / 4503599627370496) * (3602879701896397 / 4503599627370496)) = 1441151880758559 / 2251799813685248"
proof -
  have "float64 ((3602879701896397 / 4503599627370496) * (3602879701896397 / 4503599627370496)) = of_int 5764607523034236 * (1 / 9007199254740992)"
  proof (rule float64_eval [where e = "-1" and lo = "(1 / 2)" and hi = "1"])
    show "(0::real) < (3602879701896397 / 4503599627370496) * (3602879701896397 / 4503599627370496)" by simp
    show "(1 / 2) = (2::real) powr of_int (-1)" by (simp add: powr_minus_divide)
    show "1 = (2::real) powr (of_int (-1) + 1)" by (simp add: powr_minus_divide)
    show "(1 / 9007199254740992) = (2::real) powr (of_int (-1) - 52)" by (simp add: powr_minus_divide)
    show "((1 / 2)::real) \<le> (3602879701896397 / 4503599627370496) * (3602879701896397 / 4503599627370496)" by simp
    show "(3602879701896397 / 4503599627370496) * (3602879701896397 / 4503599627370496) < (1::real)" by simp
    show "(of_int 5764607523034236 - 1 / 2) * (1 / 9007199254740992) < ((3602879701896397 / 4503599627370496) * (3602879701896397 / 4503599627370496) :: real)" by simp
    show "((3602879701896397 / 4503599627370496) * (3602879701896397 / 4503599627370496) :: real) < (of_int 5764607523034236 + 1 / 2) * (1 / 9007199254740992)" by simp
  qed
  then show ?thesis by simp
qed

lemma f64_sum_ab: "float64 ((6896840616852849 / 70368744177664) + (5449355549118301 / 70368744177664)) = 6173098082985575 / 35184372088832"
proof -
  have "float64 ((6896840616852849 / 70368744177664) + (5449355549118301 / 70368744177664)) = of_int 6173098082985575 * (1 / 35184372088832)"
  proof (rule float64_eval [where e = "7" and lo = "128" and hi = "256"])
    show "(0::real) < (6896840616852849 / 70368744177664) + (5449355549118301 / 70368744177664)" by simp
    show "128 = (2::real) powr of_int (7)" by (simp add: powr_minus_divide)
    show "256 = (2::real) powr (of_int (7) + 1)" by (simp add: powr_minus_divide)
    show "(1 / 35184372088832) = (2::real) powr (of_int (7) - 52)" by (simp add: powr_minus_divide)
    show "(128::real) \<le> (6896840616852849 / 70368744177664) + (5449355549118301 / 70368744177664)" by simp
    show "(6896840616852849 / 70368744177664) + (5449355549118301 / 70368744177664) < (256::real)" by simp
    show "(of_int 6173098082985575 - 1 / 2) * (1 / 35184372088832) < ((6896840616852849 / 70368744177664) + (5449355549118301 / 70368744177664) :: real)" by simp
    show "((6896840616852849 / 70368744177664) + (5449355549118301 / 70368744177664) :: real) < (of_int 6173098082985575 + 1 / 2) * (1 / 35184372088832)" by simp
  qed
  then show ?thesis by simp
qed

lemma f64_sum_abc: "float64 ((6173098082985575 / 35184372088832) + (1441151880758559 / 2251799813685248)) = 6195616081122427 / 35184372088832"
proof -
  have "float64 ((6173098082985575 / 35184372088832) + (1441151880758559 / 2251799813685248)) = of_int 6195616081122427 * (1 / 35184372088832)"
  proof (rule float64_eval [where e = "7" and lo = "128" and hi = "256"])
    show "(0::real) < (6173098082985575 / 35184372088832) + (1441151880758559 / 2251799813685248)" by simp
    show "128 = (2::real) powr of_int (7)" by (simp add: powr_minus_divide)
    show "256 = (2::real) powr (of_int (7) + 1)" by (simp add: powr_minus_divide)
    show "(1 / 35184372088832) = (2::real) powr (of_int (7) - 52)" by (simp add: powr_minus_divide)
    show "(128::real) \<le> (6173098082985575 / 35184372088832) + (1441151880758559 / 2251799813685248)" by simp
    show "(6173098082985575 / 35184372088832) + (1441151880758559 / 2251799813685248) < (256::real)" by simp
    show "(of_int 6195616081122427 - 1 / 2) * (1 / 35184372088832) < ((6173098082985575 / 35184372088832) + (1441151880758559 / 2251799813685248) :: real)" by simp
    show "((6173098082985575 / 35184372088832) + (1441151880758559 / 2251799813685248) :: real) < (of_int 6195616081122427 + 1 / 2) * (1 / 35184372088832)" by simp
  qed
  then show ?thesis by simp
qed

lemma f64_sum_cb: "float64 ((1441151880758559 / 2251799813685248) + (5449355549118301 / 70368744177664)) = 2747195772696003 / 35184372088832"
proof -
  have "float64 ((1441151880758559 / 2251799813685248) + (5449355549118301 / 70368744177664)) = of_int 5494391545392006 * (1 / 70368744177664)"
  proof (rule float64_eval [where e = "6" and lo = "64" and hi = "128"])
    show "(0::real) < (1441151880758559 / 2251799813685248) + (5449355549118301 / 70368744177664)" by simp
    show "64 = (2::real) powr of_int (6)" by (simp add: powr_minus_divide)
    show "128 = (2::real) powr (of_int (6) + 1)" by (simp add: powr_minus_divide)
    show "(1 / 70368744177664) = (2::real) powr (of_int (6) - 52)" by (simp add: powr_minus_divide)
    show "(64::real) \<le> (1441151880758559 / 2251799813685248) + (5449355549118301 / 70368744177664)" by simp
    show "(1441151880758559 / 2251799813685248) + (5449355549118301 / 70368744177664) < (128::real)" by simp
    show "(of_int 5494391545392006 - 1 / 2) * (1 / 70368744177664) < ((1441151880758559 / 2251799813685248) + (5449355549118301 / 70368744177664) :: real)" by simp
    show "((1441151880758559 / 2251799813685248) + (5449355549118301 / 70368744177664) :: real) < (of_int 5494391545392006 + 1 / 2) * (1 / 70368744177664)" by simp
  qed
  then show ?thesis by simp
qed

lemma f64_sum_cba: "float64 ((2747195772696003 / 35184372088832) + (6896840616852849 / 70368744177664)) = 1548904020280607 / 8796093022208"
proof -
  have "float64 ((2747195772696003 / 35184372088832) + (6896840616852849 / 70368744177664)) = of_int (6195616081122427 + 1) * (1 / 35184372088832)"
  proof (rule float64_eval_tie [where e = "7" and lo = "128" and hi = "256"])
    show "(0::real) < (2747195772696003 / 35184372088832) + (6896840616852849 / 70368744177664)" by simp
    show "128 = (2::real) powr of_int (7)" by (simp add: powr_minus_divide)
    show "256 = (2::real) powr (of_int (7) + 1)" by (simp add: powr_minus_divide)
    show "(1 / 35184372088832) = (2::real) powr (of_int (7) - 52)" by (simp add: powr_minus_divide)
    show "(128::real) \<le> (2747195772696003 / 35184372088832) + (6896840616852849 / 70368744177664)" by simp
    show "(2747195772696003 / 35184372088832) + (6896840616852849 / 70368744177664) < (256::real)" by simp
    show "((2747195772696003 / 35184372088832) + (6896840616852849 / 70368744177664) :: real) = (of_int 6195616081122427 + 1 / 2) * (1 / 35184372088832)" by simp
    show "odd (6195616081122427::int)" by simp
  qed
  then show ?thesis by simp
qed

lemma f64_sqrt_abc: "float64 (sqrt (6195616081122427 / 35184372088832)) = 7470284368653393 / 562949953421312"
proof -
  have lo: "(14940568737306785 / 1125899906842624) < sqrt (6195616081122427 / 35184372088832)" by (rule real_less_rsqrt) (simp add: power2_eq_square)
  have hi: "sqrt (6195616081122427 / 35184372088832) < (14940568737306787 / 1125899906842624)" by (rule real_less_lsqrt) (simp_all add: power2_eq_square)
  have "float64 (sqrt (6195616081122427 / 35184372088832)) = of_int 7470284368653393 * (1 / 562949953421312)"
  proof (rule float64_eval [where e = "3" and lo = "8" and hi = "16"])
    show "0 < sqrt (6195616081122427 / 35184372088832)" by simp
    show "8 = (2::real) powr of_int (3)" by (simp add: powr_minus_divide)
    show "16 = (2::real) powr (of_int (3) + 1)" by (simp add: powr_minus_divide)
    show "(1 / 562949953421312) = (2::real) powr (of_int (3) - 52)" by (simp add: powr_minus_divide)
    from lo show "8 \<le> sqrt (6195616081122427 / 35184372088832)" by linarith
    from hi show "sqrt (6195616081122427 / 35184372088832) < 16" by linarith
    from lo show "(of_int 7470284368653393 - 1 / 2) * (1 / 562949953421312) < sqrt (6195616081122427 / 35184372088832)" by simp
    from hi show "sqrt (6195616081122427 / 35184372088832) < (of_int 7470284368653393 + 1 / 2) * (1 / 562949953421312)" by simp
  qed
  then show ?thesis by simp
qed

lemma f64_sqrt_cba: "float64 (sqrt (1548904020280607 / 8796093022208)) = 3735142184326697 / 281474976710656"
proof -
  have lo: "(14940568737306787 / 1125899906842624) < sqrt (1548904020280607 / 8796093022208)" by (rule real_less_rsqrt) (simp add: power2_eq_square)
  have hi: "sqrt (1548904020280607 / 8796093022208) < (14940568737306789 / 1125899906842624)" by (rule real_less_lsqrt) (simp_all add: power2_eq_square)
  have "float64 (sqrt (1548904020280607 / 8796093022208)) = of_int 7470284368653394 * (1 / 562949953421312)"
  proof (rule float64_eval [where e = "3" and lo = "8" and hi = "16"])
    show "0 < sqrt (1548904020280607 / 8796093022208)" by simp
    show "8 = (2::real) powr of_int (3)" by (simp add: powr_minus_divide)
    show "16 = (2::real) powr (of_int (3) + 1)" by (simp add: powr_minus_divide)
    show "(1 / 562949953421312) = (2::real) powr (of_int (3) - 52)" by (simp add: powr_minus_divide)
    from lo show "8 \<le> sqrt (1548904020280607 / 8796093022208)" by linarith
    from hi show "sqrt (1548904020280607 / 8796093022208) < 16" by linarith
    from lo show "(of_int 7470284368653394 - 1 / 2) * (1 / 562949953421312) < sqrt (1548904020280607 / 8796093022208)" by simp
    from hi show "sqrt (1548904020280607 / 8796093022208) < (of_int 7470284368653394 + 1 / 2) * (1 / 562949953421312)" by simp
  qed
  then show ?thesis by simp
qed

lemma float64_radius_abc:
  "f_sqrt (float64_arith libm_arctan2) (f_add (float64_arith libm_arctan2) (f_add (float64_arith libm_arctan2)
      (f_square (float64_arith libm_arctan2) (5573204538870989 / 562949953421312)) (f_square (float64_arith libm_arctan2) (2476979795053773 / 281474976710656)))
      (f_square (float64_arith libm_arctan2) (3602879701896397 / 4503599627370496))) = 7470284368653393 / 562949953421312"
  by (simp only: float64_arith_def np_float.simps f64_99_10 f64_88_10 f64_8_10 f64_sq_a f64_sq_b f64_sq_c f64_sum_ab f64_sum_abc f64_sum_cb f64_sum_cba f64_sqrt_abc f64_sqrt_cba)

lemma float64_radius_cba:
  "f_sqrt (float64_arith libm_arctan2) (f_add (float64_arith libm_arctan2) (f_add (float64_arith libm_arctan2)
      (f_square (float64_arith libm_arctan2) (3602879701896397 / 4503599627370496)) (f_square (float64_arith libm_arctan2) (2476979795053773 / 281474976710656)))
      (f_square (float64_arith libm_arctan2) (5573204538870989 / 562949953421312))) = 3735142184326697 / 281474976710656"
  by (simp only: float64_arith_def np_float.simps f64_99_10 f64_88_10 f64_8_10 f64_sq_a f64_sq_b f64_sq_c f64_sum_ab f64_sum_abc f64_sum_cb f64_sum_cba f64_sqrt_abc f64_sqrt_cba)

section \<open>Properties of the grid generator\<close>

lemma pi_not_le_zero: "\<not> pi \<le> 0"
  using pi_gt_zero by linarith

lemma length_concat_grid:
  "length (concat (map (\<lambda>a. map (f a) ys) xs)) = length xs * length ys"
  by (induction xs) simp_all





section \<open>Properties of the density estimator\<close>

lemma length_np_linspace: "length (np_linspace a b n) = n"
  by (simp add: np_linspace_def Let_def)

lemma length_hist_counts: "length (hist_counts dt sizes rawdata) = fst sizes * snd sizes"
  by (simp add: hist_counts_def np_histogram2d_def Let_def length_np_linspace length_concat_grid)

lemma length_reshape4: "length (reshape4 xs) = length xs div 4"
proof (induction xs rule: reshape4.induct)
  case (1 a b c d rest)
  have "Suc (Suc (Suc (Suc (length rest)))) div 4 = Suc (length rest div 4)" by arith
  with 1 show ?case by simp
qed simp_all

lemma length_raw_X: "length (raw_X dt rawdata) = length rawdata div 4"
  by (simp add: raw_X_def field_x_def field_phi_def field_1_def length_reshape4)

lemma real_sum_list: "sum_list (map real hs) = real (sum_list hs)"
  by (induction hs) simp_all

lemma sum_list_divide_const: "(\<Sum>h\<leftarrow>hs. f h / c) = (\<Sum>h\<leftarrow>hs. f h) / (c::real)"
  by (induction hs) (simp_all add: add_divide_distrib)

lemma fl_div_Fin: "d \<noteq> 0 \<Longrightarrow> fl_div (Fin v) d = Fin (v / d)"
  by (simp add: fl_div_def)

lemma divide_mult_cancel_real: "(c::real) \<noteq> 0 \<Longrightarrow> a / c * c = a"
  by simp

lemma x_edges_1: "np_linspace (- 1) 1 (Suc (Suc 0)) = [- 1, 1]"
  by (simp add: np_linspace_def Let_def float64_0 float64_1 float64_2 float64_minus)

lemma phi_edges_1: "np_linspace (- np_pi) np_pi (Suc (Suc 0)) = [- np_pi, np_pi]"
  using np_pi_bounds
  by (simp add: np_linspace_def Let_def float64_0 float64_minus float64_np_pi float64_double_np_pi)


lemma hist_edges_1_1:
  "np_linspace (- 1) 1 (fst (1 :: nat, 1 :: nat) + 1) = [- 1, 1]"
  "np_linspace (- np_pi) np_pi (snd (1 :: nat, 1 :: nat) + 1) = [- np_pi, np_pi]"
  using x_edges_1 phi_edges_1 by simp_all


lemma precision_ge: "24 \<le> precision dt"
  by (cases dt) (simp_all add: precision_def)

lemma offset_azimuth_one: "- np_pi \<le> offset_azimuth dt 1 \<and> offset_azimuth dt 1 < 0"
proof -
  define a where "a = fl_round (precision dt) np_pi"
  define w where "w = 1 - a"
  define v where "v = fl_round (precision dt) w"
  from np_pi_bounds have b: "3 / 2 < np_pi" "np_pi < 5" by simp_all
  from b have "0 \<le> np_pi" by simp
  from fl_round_bounds_pos [OF precision_ge this, of dt]
  have a: "np_pi - np_pi / 16777216 \<le> a" "a \<le> np_pi + np_pi / 16777216"
    by (simp_all add: a_def)
  have weq: "w = 1 - a" by (simp add: w_def)
  from a b weq have "w \<le> 0" by linarith
  from fl_round_bounds_neg [OF precision_ge this, of dt]
  have v: "w + w / 16777216 \<le> v" "v \<le> w - w / 16777216" by (simp_all add: v_def)
  from a v b weq have "- np_pi \<le> v" by linarith
  moreover from a v b weq have "v < 0" by linarith
  ultimately show ?thesis by (simp add: offset_azimuth_def v_def w_def a_def)
qed

lemma offset_azimuth_negative:
  "f1 \<le> - 1 \<Longrightarrow> offset_azimuth dt f1 < - np_pi - np_pi / 16777216"
proof -
  assume f: "f1 \<le> - 1"
  define a where "a = fl_round (precision dt) np_pi"
  define w where "w = f1 - a"
  define v where "v = fl_round (precision dt) w"
  from np_pi_bounds have b: "3 / 2 < np_pi" "np_pi < 5" by simp_all
  from b have "0 \<le> np_pi" by simp
  from fl_round_bounds_pos [OF precision_ge this, of dt]
  have a: "np_pi - np_pi / 16777216 \<le> a" "a \<le> np_pi + np_pi / 16777216"
    by (simp_all add: a_def)
  have weq: "w = f1 - a" by (simp add: w_def)
  from a b f weq have w: "w \<le> 0" "w = f1 - a" by linarith+
  from fl_round_bounds_neg [OF precision_ge w(1), of dt]
  have v: "v \<le> w - w / 16777216" by (simp add: v_def)
  from a v b f w(2) have "v < - np_pi - np_pi / 16777216" by linarith
  then show ?thesis by (simp add: offset_azimuth_def v_def w_def a_def)
qed

lemma shifted_edge_lower:
  "0 \<le> v \<Longrightarrow> - np_pi - np_pi / 16777216 \<le> float64 (v + - np_pi)"
proof (cases "0 \<le> v + - np_pi")
  case True
  then have "0 \<le> float64 (v + - np_pi)" by (rule float64_nonneg)
  moreover from np_pi_bounds have "- np_pi - np_pi / 16777216 \<le> 0" by simp
  ultimately show ?thesis by linarith
next
  case False
  assume v: "0 \<le> v"
  define s where "s = v + - np_pi"
  from False have s: "s \<le> 0" by (simp add: s_def)
  from fl_round_bounds_neg [OF _ this, of 53]
  have "s + s / 16777216 \<le> float64 s" by (simp add: float64_def)
  moreover have "s = v - np_pi" by (simp add: s_def)
  ultimately have "- np_pi - np_pi / 16777216 \<le> float64 s" using v by linarith
  then show ?thesis by (simp add: s_def)
qed

lemma phi_edges_lower:
  "e \<in> set (np_linspace (- np_pi) np_pi n) \<Longrightarrow> - np_pi - np_pi / 16777216 \<le> e"
proof -
  let ?delta = "float64 (np_pi - - np_pi)"
  let ?step = "float64 (?delta / real (n - 1))"
  let ?y = "(if 0 < n - 1
               then (if ?step = 0
                     then map (\<lambda>k. float64 (float64 (real k / real (n - 1)) * ?delta)) [0..<n]
                     else map (\<lambda>k. float64 (real k * ?step)) [0..<n])
               else map (\<lambda>k. float64 (real k * ?delta)) [0..<n])"
  let ?y' = "map (\<lambda>v. float64 (v + - np_pi)) ?y"
  assume e: "e \<in> set (np_linspace (- np_pi) np_pi n)"
  have d: "0 \<le> ?delta" using np_pi_bounds by (intro float64_nonneg) simp
  then have s: "0 \<le> ?step" by (intro float64_nonneg) simp
  have y: "\<forall>v\<in>set ?y. 0 \<le> v"
    using d s by (auto intro!: float64_nonneg mult_nonneg_nonneg divide_nonneg_nonneg)
  have y': "\<forall>w\<in>set ?y'. - np_pi - np_pi / 16777216 \<le> w"
  proof
    fix w assume "w \<in> set ?y'"
    then obtain v where "v \<in> set ?y" and w: "w = float64 (v + - np_pi)" by auto
    with y have "0 \<le> v" by blast
    then show "- np_pi - np_pi / 16777216 \<le> w" unfolding w by (rule shifted_edge_lower)
  qed
  from e have "e \<in> set (if 1 < n then ?y'[n - 1 := np_pi] else ?y')"
    unfolding np_linspace_def Let_def .
  then have "e = np_pi \<or> e \<in> set ?y'"
    using set_update_subset_insert [of ?y' "n - 1" np_pi] by (auto split: if_splits)
  with y' np_pi_bounds show ?thesis by auto
qed

lemma bin_index_below: "\<forall>e\<in>set edges. v < e \<Longrightarrow> bin_index edges v = None"
proof -
  assume a: "\<forall>e\<in>set edges. v < e"
  then have "filter (\<lambda>e. e \<le> v) edges = []" by (auto simp: filter_empty_conv)
  then show ?thesis by (simp add: bin_index_def)
qed

lemma negative_azimuth_no_bin:
  "f1 \<le> - 1 \<Longrightarrow> bin_index (np_linspace (- np_pi) np_pi n) (offset_azimuth dt f1) = None"
proof (rule bin_index_below, rule ballI)
  fix e assume "f1 \<le> - 1" and "e \<in> set (np_linspace (- np_pi) np_pi n)"
  with offset_azimuth_negative [of f1 dt] phi_edges_lower [of e n]
  show "offset_azimuth dt f1 < e" by linarith
qed


lemma hist_counts_negative_azimuth:
  assumes "\<forall>f1\<in>set (field_1 rawdata). f1 \<le> - 1"
  shows "sum_list (hist_counts dt sizes rawdata) = 0"
proof -
  let ?xe = "np_linspace (- 1) 1 (fst sizes + 1)"
  let ?pe = "np_linspace (- np_pi) np_pi (snd sizes + 1)"
  let ?zs = "zip (field_x rawdata) (field_phi dt rawdata)"
  have none: "bin_index ?pe y = None" if "(x, y) \<in> set ?zs" for x y
  proof -
    from that have "y \<in> set (field_phi dt rawdata)" by (rule set_zip_rightD)
    then obtain f1 where "f1 \<in> set (field_1 rawdata)" and y: "y = offset_azimuth dt f1"
      by (auto simp: field_phi_def)
    with assms have "f1 \<le> - 1" by blast
    then show ?thesis unfolding y by (rule negative_azimuth_no_bin)
  qed
  have "filter (\<lambda>(x, y). bin_index ?xe x = Some a \<and> bin_index ?pe y = Some b) ?zs = []" for a b
    using none by (auto simp: filter_empty_conv)
  then have h: "hist_counts dt sizes rawdata
               = concat (map (\<lambda>a. map (\<lambda>b. 0) [0..<snd sizes]) [0..<fst sizes])"
    by (simp add: hist_counts_def np_histogram2d_def Let_def length_np_linspace)
  show ?thesis unfolding h by auto
qed

lemma bin_one_record:
  "hist_counts dt (1, 1) [0, 1, 0, 0] = [1]"
proof -
  from offset_azimuth_one [of dt] np_pi_bounds
  have c: "- np_pi \<le> offset_azimuth dt 1" "\<not> np_pi \<le> offset_azimuth dt 1" by linarith+
  from c(2) have c3: "offset_azimuth dt 1 \<noteq> np_pi" by auto
  show ?thesis
    unfolding hist_counts_def hist_edges_1_1
    by (simp add: np_histogram2d_def field_x_def field_1_def field_phi_def bin_index_def c c3)
qed

lemma hist_counts_zero_size:
  "fst sizes = 0 \<or> snd sizes = 0 \<Longrightarrow> hist_counts dt sizes rawdata = []"
proof -
  assume "fst sizes = 0 \<or> snd sizes = 0"
  then have "length (hist_counts dt sizes rawdata) = 0" by (auto simp: length_hist_counts)
  then show ?thesis by simp
qed

lemma hist_counts_x_out_of_range: "hist_counts dt (1, 1) [2, 0, 0, 0] = [0]"
  unfolding hist_counts_def hist_edges_1_1
  by (simp add: np_histogram2d_def field_x_def field_1_def field_phi_def bin_index_def)

lemma hist_counts_x_out_of_range_Suc: "hist_counts dt (Suc 0, Suc 0) [2, 0, 0, 0] = [0]"
  using hist_counts_x_out_of_range [of dt] by simp

lemma offset_azimuth_zero_float32: "offset_azimuth Float32 0 = - (13176795 / 4194304)"
proof -
  have "\<bar>13176795 :: int\<bar> < 2 ^ 24" by simp
  from fl_round_repr [OF this, of "- 22"]
  have "fl_round 24 (13176795 * 2 powr - 22) = 13176795 * 2 powr - 22" by simp
  then have "fl_round 24 (13176795 / 4194304) = 13176795 / 4194304"
    unfolding two_powr_minus_22 by simp
  then show ?thesis
    by (simp add: offset_azimuth_def precision_def float32_np_pi fl_round_minus)
qed

lemma offset_azimuth_zero_float64: "offset_azimuth Float64 0 = - np_pi"
  using float64_np_pi
  by (simp add: offset_azimuth_def precision_def float64_def fl_round_minus)

section \<open>The claims\<close>

subsection \<open>C1: the histogram is a density\<close>

text \<open>
  Claim C1. Whenever the file holds whole records and at least one sample is counted by
  the histogram, \<^verbatim>\<open>load_rawdata\<close> returns; every bin it returns is a finite number, there
  are \<open>sizeX * sizePhi\<close> of them, and the bins, each multiplied by the solid angle
  \<open>4\<pi> / (sizeX * sizePhi)\<close> of one bin, sum to one. Which samples are counted is decided
  with the rounding of the source; the two divisions are those of the reals, so the sum
  is exactly one, and the tolerance of the claim is what their rounding adds.
\<close>

theorem histogram_normalized:
  assumes "length rawdata mod 4 = 0" and "0 < sum_list (hist_counts dt sizes rawdata)"
  shows "\<exists>raw_data bins.
           load_rawdata dt sizes np_random_choice rawdata = Inr (raw_data, map Fin bins)
           \<and> length bins = fst sizes * snd sizes
           \<and> (\<Sum>b\<leftarrow>bins. b * (4 * pi / real (fst sizes * snd sizes))) = 1"
proof -
  let ?H = "hist_counts dt sizes rawdata"
  let ?n = "fst sizes * snd sizes"
  let ?total = "sum_list (map real ?H)"
  let ?area = "4 * pi / real ?n"
  let ?bins = "map (\<lambda>h. real h / ?total / ?area) ?H"
  have len: "length ?H = ?n" by (rule length_hist_counts)
  from assms(2) have "?H \<noteq> []" by auto
  with len have n: "?n \<noteq> 0" by (metis length_0_conv)
  from assms(2) have tpos: "0 < ?total" by (simp add: real_sum_list)
  from n have apos: "0 < ?area" by simp
  from tpos have tne: "?total \<noteq> 0" by linarith
  from apos have ane: "?area \<noteq> 0" by linarith
  have rd: "map (\<lambda>h. fl_div (fl_div (Fin h) ?total) ?area) (map real ?H) = map Fin ?bins"
    by (simp only: fl_div_Fin [OF tne] fl_div_Fin [OF ane] map_map comp_def)
  have load: "load_rawdata dt sizes np_random_choice rawdata =
      Inr (map (\<lambda>k. raw_X dt rawdata ! k)
             (np_random_choice (length (raw_X dt rawdata)) (min 8192 (length (raw_X dt rawdata)))),
           map Fin ?bins)"
    using assms(1) n rd by (simp add: load_rawdata_def Let_def length_hist_counts)
  have "(\<Sum>b\<leftarrow>?bins. b * ?area) = (\<Sum>h\<leftarrow>?H. real h / ?total)"
    by (simp only: map_map comp_def divide_mult_cancel_real [OF ane])
  also have "\<dots> = ?total / ?total"
    by (simp only: sum_list_divide_const)
  also have "\<dots> = 1" using tpos by simp
  finally have s: "(\<Sum>b\<leftarrow>?bins. b * ?area) = 1" .
  have lb: "length ?bins = ?n" by (simp add: length_hist_counts)
  from load lb s show ?thesis by blast
qed

text \<open>
  An instance: one float32 record with \<open>x = 0\<close> and azimuth field \<open>1\<close>, one bin.
\<close>

theorem histogram_normalized_witness:
  "length [0, 1, 0, 0 :: real] mod 4 = 0
   \<and> 0 < sum_list (hist_counts Float32 (1, 1) [0, 1, 0, 0])
   \<and> (\<exists>raw_data bins.
           load_rawdata Float32 (1, 1) (\<lambda>n k. [0..<k]) [0, 1, 0, 0] = Inr (raw_data, map Fin bins)
           \<and> length bins = fst (1 :: nat, 1 :: nat) * snd (1 :: nat, 1 :: nat)
           \<and> (\<Sum>b\<leftarrow>bins. b * (4 * pi / real (fst (1 :: nat, 1 :: nat) * snd (1 :: nat, 1 :: nat)))) = 1)"
proof -
  have h1: "length [0, 1, 0, 0 :: real] mod 4 = 0" by simp
  have h2: "0 < sum_list (hist_counts Float32 (1, 1) [0, 1, 0, 0])"
    unfolding bin_one_record by simp
  from histogram_normalized [OF h1 h2, of "\<lambda>n k. [0..<k]"] h1 h2 show ?thesis by blast
qed

text \<open>
  Which samples are counted depends on the rounding. One record with \<open>x = 0\<close> and azimuth
  field \<open>0\<close>, one bin: in float32 the offset value is the negative of the float32 nearest
  to \<^verbatim>\<open>np.pi\<close>, which lies below the first edge \<^verbatim>\<open>-np.pi\<close>, and the record is not
  counted; in float64 the offset value is the first edge, and the record is counted.
\<close>

lemma zero_azimuth_record:
  "hist_counts Float32 (1, 1) [0, 0, 0, 0] = [0] \<and> hist_counts Float64 (1, 1) [0, 0, 0, 0] = [1]"
proof
  from np_pi_digits have d: "314159263 / 100000000 < np_pi" "np_pi < 314159271 / 100000000"
    by simp_all
  show "hist_counts Float32 (1, 1) [0, 0, 0, 0] = [0]"
    unfolding hist_counts_def hist_edges_1_1
    using d
    by (simp add: np_histogram2d_def field_x_def field_1_def field_phi_def bin_index_def
          offset_azimuth_zero_float32)
  show "hist_counts Float64 (1, 1) [0, 0, 0, 0] = [1]"
    unfolding hist_counts_def hist_edges_1_1
    using d
    by (simp add: np_histogram2d_def field_x_def field_1_def field_phi_def bin_index_def
          offset_azimuth_zero_float64)
qed

subsection \<open>C2: which azimuth the histogram bins\<close>




subsection \<open>C3: both sequencers return a permutation\<close>

text \<open>
  Claim C3. When \<open>rank\<close> is a result of \<^verbatim>\<open>np.argsort\<close> on the distances and every id of the
  edge list lies in \<open>[0, N)\<close>, \<^verbatim>\<open>sort_nodes_and_edges_bfs\<close> returns a list of length \<open>N\<close>
  without repetition whose elements are the ids \<open>0, \<dots>, N - 1\<close>. \<^verbatim>\<open>sort_nodes_and_edges\<close>
  returns such a list for every point set and every edge list, whatever the float
  arithmetic computes as keys.
\<close>

theorem sequencers_return_permutation:
  "(np_argsort_ok (distances pos_np) rank
      \<and> (\<forall>(src, dst)\<in>set edges_np. 0 \<le> src \<and> src < int (length pos_np)
                                      \<and> 0 \<le> dst \<and> dst < int (length pos_np))
      \<longrightarrow> (\<exists>order. sort_nodes_and_edges_bfs rank pos_np edges_np = Inr order
              \<and> length order = length pos_np \<and> distinct order
              \<and> set order = {0..<int (length pos_np)}))
   \<and> length (sort_nodes_and_edges fa pos_np' edges_np') = length pos_np'
   \<and> distinct (sort_nodes_and_edges fa pos_np' edges_np')
   \<and> set (sort_nodes_and_edges fa pos_np' edges_np') = {0..<length pos_np'}"
proof (intro conjI impI)
  assume a: "np_argsort_ok (distances pos_np) rank
      \<and> (\<forall>(src, dst)\<in>set edges_np. 0 \<le> src \<and> src < int (length pos_np)
                                      \<and> 0 \<le> dst \<and> dst < int (length pos_np))"
  then have "set rank = {0..<length (distances pos_np)}" by (simp add: np_argsort_ok_set)
  then have rank: "set rank = {0..<length pos_np}" by (simp only: length_distances)
  from a have dst: "\<forall>(src, dst)\<in>set edges_np. 0 \<le> dst \<and> dst < int (length pos_np)"
    by auto
  from rank dst
  show "\<exists>order. sort_nodes_and_edges_bfs rank pos_np edges_np = Inr order
              \<and> length order = length pos_np \<and> distinct order
              \<and> set order = {0..<int (length pos_np)}"
    by (rule bfs_permutation)
next
  show "length (sort_nodes_and_edges fa pos_np' edges_np') = length pos_np'"
    by (rule length_sort_nodes_and_edges)
next
  show "distinct (sort_nodes_and_edges fa pos_np' edges_np')"
    by (rule distinct_sort_nodes_and_edges)
next
  show "set (sort_nodes_and_edges fa pos_np' edges_np') = {0..<length pos_np'}"
    by (rule set_sort_nodes_and_edges)
qed

text \<open>
  An instance: the five points and four edges of the scenario of the specification.
\<close>

theorem sequencers_return_permutation_witness:
  "np_argsort_ok (distances [(0,0,0),(1,0,0),(2,0,0),(0,1,0),(0,2,0)]) [0,3,1,4,2]
   \<and> (\<exists>order. sort_nodes_and_edges_bfs [0,3,1,4,2] [(0,0,0),(1,0,0),(2,0,0),(0,1,0),(0,2,0)]
                 [(0,1),(1,2),(0,3),(3,4)] = Inr order
              \<and> length order = 5 \<and> distinct order \<and> set order = {0..<5})
   \<and> length (sort_nodes_and_edges real_arith [(0,0,0),(1,0,0),(2,0,0),(0,1,0),(0,2,0)] [(0,1),(1,2),(0,3),(3,4)]) = 5
   \<and> distinct (sort_nodes_and_edges real_arith [(0,0,0),(1,0,0),(2,0,0),(0,1,0),(0,2,0)] [(0,1),(1,2),(0,3),(3,4)])
   \<and> set (sort_nodes_and_edges real_arith [(0,0,0),(1,0,0),(2,0,0),(0,1,0),(0,2,0)] [(0,1),(1,2),(0,3),(3,4)]) = {0..<5}"
proof -
  let ?P = "[(0,0,0),(1,0,0),(2,0,0),(0,1,0),(0,2,0)] :: point list"
  let ?E = "[(0,1),(1,2),(0,3),(3,4)] :: (int \<times> int) list"
  have h: "np_argsort_ok (distances ?P) [0,3,1,4,2]"
    by (simp add: np_argsort_ok_def distances_def norm3_def upt_rec)
  have e: "\<forall>(src, dst)\<in>set ?E. 0 \<le> src \<and> src < int (length ?P)
                                      \<and> 0 \<le> dst \<and> dst < int (length ?P)"
    by simp
  have l: "length ?P = 5" by simp
  note t = sequencers_return_permutation [of ?P "[0,3,1,4,2]" ?E real_arith ?P ?E, unfolded l]
  from e have e': "\<forall>(src, dst)\<in>set ?E. 0 \<le> src \<and> src < int 5 \<and> 0 \<le> dst \<and> dst < int 5"
    by (simp only: l)
  from t h e' have "\<exists>order. sort_nodes_and_edges_bfs [0,3,1,4,2] ?P ?E = Inr order
              \<and> length order = 5 \<and> distinct order \<and> set order = {0..<int 5}"
    by blast
  then have b: "\<exists>order. sort_nodes_and_edges_bfs [0,3,1,4,2] ?P ?E = Inr order
              \<and> length order = 5 \<and> distinct order \<and> set order = {0..<5}"
    by simp
  from t have c: "length (sort_nodes_and_edges real_arith ?P ?E) = 5"
    and d: "distinct (sort_nodes_and_edges real_arith ?P ?E)"
    and s: "set (sort_nodes_and_edges real_arith ?P ?E) = {0..<5}" by blast+
  from h b c d s show ?thesis by blast
qed

subsection \<open>C5: the adjacency is built without validation\<close>

text \<open>
  Claim C5, as the code has it. Building the adjacency cannot fail and checks nothing:
  \<open>adjacency[s]\<close> is the list of the \<open>dst\<close> of the edges with \<open>src = s\<close>, in edge order,
  whatever the ids are. The sequencer returns a result whenever every \<open>dst\<close> lies in
  \<open>[0, N)\<close>, with no condition on \<open>src\<close>. The only failure is the \<^verbatim>\<open>IndexError\<close> of numpy,
  raised by \<^verbatim>\<open>visited[neighbor]\<close> when the traversal meets a neighbour outside \<open>[-N, N)\<close>.
\<close>

theorem adjacency_no_validation:
  "build_adjacency edges_np s = map snd (filter (\<lambda>e. fst e = s) edges_np)
   \<and> (np_argsort_ok (distances pos_np) rank
        \<and> (\<forall>(src, dst)\<in>set edges_np. 0 \<le> dst \<and> dst < int (length pos_np))
        \<longrightarrow> (\<exists>order. sort_nodes_and_edges_bfs rank pos_np edges_np = Inr order))
   \<and> (\<not> (- int (length visited) \<le> d \<and> d < int (length visited))
        \<longrightarrow> visit_neighbors (d # rest) (visited, queue) = Inl IndexError)"
proof (intro conjI impI)
  show "build_adjacency edges_np s = map snd (filter (\<lambda>e. fst e = s) edges_np)"
    by (rule build_adjacency_eq)
next
  assume a: "np_argsort_ok (distances pos_np) rank
        \<and> (\<forall>(src, dst)\<in>set edges_np. 0 \<le> dst \<and> dst < int (length pos_np))"
  then have "set rank = {0..<length (distances pos_np)}" by (simp add: np_argsort_ok_set)
  then have rank: "set rank = {0..<length pos_np}" by (simp only: length_distances)
  from a have dst: "\<forall>(src, dst)\<in>set edges_np. 0 \<le> dst \<and> dst < int (length pos_np)"
    by (rule conjunct2)
  from bfs_permutation [OF rank dst]
  show "\<exists>order. sort_nodes_and_edges_bfs rank pos_np edges_np = Inr order" by blast
next
  assume "\<not> (- int (length visited) \<le> d \<and> d < int (length visited))"
  then show "visit_neighbors (d # rest) (visited, queue) = Inl IndexError"
    by (rule visit_neighbors_out_of_range)
qed

text \<open>
  An instance: one node, an edge whose \<open>src\<close> is 5, and the neighbour 7 of a one-node graph.
\<close>

theorem adjacency_no_validation_witness:
  "build_adjacency [(5, 0), (0, 0)] 5 = [0]
   \<and> np_argsort_ok (distances [(0, 0, 0)]) [0]
   \<and> (\<exists>order. sort_nodes_and_edges_bfs [0] [(0, 0, 0)] [(5, 0), (0, 0)] = Inr order)
   \<and> \<not> (- int (length [False]) \<le> 7 \<and> 7 < int (length [False]))
   \<and> visit_neighbors (7 # []) ([False], []) = Inl IndexError"
proof -
  let ?P = "[(0, 0, 0)] :: point list"
  let ?E = "[(5, 0), (0, 0)] :: (int \<times> int) list"
  note t = adjacency_no_validation [of ?E 5 ?P "[0]" "[False]" 7 "[]" "[]"]
  have h: "np_argsort_ok (distances ?P) [0]"
    by (simp add: np_argsort_ok_def distances_def)
  have e: "\<forall>(src, dst)\<in>set ?E. 0 \<le> dst \<and> dst < int (length ?P)" by simp
  have o: "\<not> (- int (length [False]) \<le> 7 \<and> 7 < int (length [False]))" by simp
  from t have a: "build_adjacency ?E 5 = [0]" by simp
  from t h e have b: "\<exists>order. sort_nodes_and_edges_bfs [0] ?P ?E = Inr order" by blast
  from t o have c: "visit_neighbors (7 # []) ([False], []) = Inl IndexError" by blast
  from a h b o c show ?thesis by blast
qed

text \<open>
  Two edge lists with an id outside \<open>[0, N)\<close> on which the sequencer returns a result: a
  \<open>src\<close> of 5 with one node, which is stored and never looked up, and a \<open>dst\<close> of \<open>-1\<close> with
  two nodes, which numpy takes as the index of the last node and which is returned as it
  is.
\<close>

theorem adjacency_out_of_range_counterexample:
  "np_argsort_ok (distances [(0, 0, 0)]) [0]
   \<and> sort_nodes_and_edges_bfs [0] [(0, 0, 0)] [(5, 0)] = Inr [0]
   \<and> np_argsort_ok (distances [(0, 0, 0), (1, 0, 0)]) [0, 1]
   \<and> sort_nodes_and_edges_bfs [0, 1] [(0, 0, 0), (1, 0, 0)] [(0, - 1)] = Inr [0, - 1]"
  by (simp add: np_argsort_ok_def distances_def norm3_def sort_nodes_and_edges_bfs_def
        build_adjacency_def np_index_def)

text \<open>
  A \<open>dst\<close> of 5 with one node, reached from node 0: the \<^verbatim>\<open>IndexError\<close> of numpy.
\<close>

lemma bfs_index_error_example:
  "sort_nodes_and_edges_bfs [0] [(0, 0, 0)] [(0, 5)] = Inl IndexError"
  by (simp add: sort_nodes_and_edges_bfs_def build_adjacency_def np_index_def)

subsection \<open>C6: the scenario of five points\<close>

text \<open>
  Claim C6. On the five points \<open>(0,0,0), (1,0,0), (2,0,0), (0,1,0), (0,2,0)\<close> with the edges
  \<open>(0,1), (1,2), (0,3), (3,4)\<close> the BFS sequencer returns \<open>[0, 1, 3, 2, 4]\<close>, whichever way
  \<^verbatim>\<open>np.argsort\<close> orders the two pairs of nodes at equal distance: node 0 is the only
  nearest node, and the traversal from it reaches every node.
\<close>

theorem bfs_scenario:
  assumes "np_argsort_ok (distances [(0,0,0),(1,0,0),(2,0,0),(0,1,0),(0,2,0)]) rank"
  shows "sort_nodes_and_edges_bfs rank [(0,0,0),(1,0,0),(2,0,0),(0,1,0),(0,2,0)]
           [(0,1),(1,2),(0,3),(3,4)] = Inr [0,1,3,2,4]"
proof -
  let ?ds = "[0,1,2,1,2] :: real list"
  have ds: "distances [(0,0,0),(1,0,0),(2,0,0),(0,1,0),(0,2,0)] = ?ds"
    by (simp add: distances_def norm3_def)
  with assms have ok: "np_argsort_ok ?ds rank" by simp
  then have len: "length rank = 5" by (simp add: np_argsort_ok_length)
  then obtain r0 rest where rk: "rank = r0 # rest" by (cases rank) auto
  have l5: "length ?ds = 5" by simp
  have mem: "(n \<in> set rank) = (n < 5)" for n
    using np_argsort_ok_mem [OF ok, of n] by (simp only: l5)
  from mem [of r0] rk have r0: "r0 < 5" by simp
  have rest: "\<forall>n\<in>set rest. n < 5"
  proof
    fix n assume "n \<in> set rest"
    with rk have "n \<in> set rank" by simp
    with mem [of n] show "n < 5" by simp
  qed
  from ok rk have "?ds ! r0 \<le> ?ds ! 0" using np_argsort_ok_head_least [of ?ds r0 rest 0] by simp
  then have le: "?ds ! r0 \<le> 0" by simp
  from r0 have "r0 = 0 \<or> r0 = 1 \<or> r0 = 2 \<or> r0 = 3 \<or> r0 = 4" by arith
  with le have r00: "r0 = 0" by auto
  let ?adj = "build_adjacency [(0,1),(1,2),(0,3),(3,4)]"
  let ?v0 = "replicate (length [(0,0,0),(1,0,0),(2,0,0),(0,1,0),(0,2,0) :: point]) False"
  let ?st = "([True, True, True, True, True], [0,1,3,2,4] :: int list)"
  have a: "0 < length ?v0" by simp
  have b: "\<not> ?v0 ! 0" by simp
  have w: "bfs_while ?adj (?v0[0 := True], [int 0], []) = Inr ?st"
    by (simp add: build_adjacency_def np_index_def eval_nat_numeral)
  note s1 = bfs_seeds_first [OF a b w, where rest = rest]
  have s2: "bfs_seeds ?adj rest ?st = Inr ?st"
  proof (rule bfs_seeds_all_visited)
    show "\<forall>b\<in>set [True, True, True, True, True]. b" by simp
    from rest show "\<forall>n\<in>set rest. n < length [True, True, True, True, True]"
      by (simp add: eval_nat_numeral)
  qed
  from s1 s2 have s: "bfs_seeds ?adj (0 # rest) (?v0, []) = Inr ?st" by (rule trans)
  show ?thesis
    unfolding sort_nodes_and_edges_bfs_def Let_def rk r00 s by simp
qed

text \<open>
  An instance: the ranking \<open>[0, 3, 1, 4, 2]\<close>, which puts the ties against the id order.
\<close>

theorem bfs_scenario_witness:
  "np_argsort_ok (distances [(0,0,0),(1,0,0),(2,0,0),(0,1,0),(0,2,0)]) [0,3,1,4,2]
   \<and> sort_nodes_and_edges_bfs [0,3,1,4,2] [(0,0,0),(1,0,0),(2,0,0),(0,1,0),(0,2,0)]
           [(0,1),(1,2),(0,3),(3,4)] = Inr [0,1,3,2,4]"
proof -
  have h: "np_argsort_ok (distances [(0,0,0),(1,0,0),(2,0,0),(0,1,0),(0,2,0)]) [0,3,1,4,2]"
    by (simp add: np_argsort_ok_def distances_def norm3_def upt_rec)
  from h bfs_scenario [OF h] show ?thesis by simp
qed

subsection \<open>C7: the spherical order\<close>



text \<open>
  The output on these two points, which the sequencer exchanges.
\<close>

lemma sort_nodes_and_edges_example:
  "sort_nodes_and_edges real_arith [(1, 0, 0), (0, 0, 0)] [] = [1, 0]"
  by (simp add: sort_nodes_and_edges_def np_lexsort_def spherical_coords_def real_arith_def
        np_remainder_def np_arctan2_def upt_rec)

text \<open>
  Where no operation rounds, the key row of a point \<open>(x, y, z)\<close> is \<open>sqrt (x\<^sup>2 + y\<^sup>2 + z\<^sup>2)\<close>,
  \<open>x\<close>, and the angle \<open>arctan2 (z, y)\<close> reduced modulo \<open>2\<pi>\<close> into \<open>[0, 2\<pi>)\<close>.
\<close>

lemma real_arith_key_row:
  "i < length pos_np \<Longrightarrow>
     (case pos_np ! i of (x, y, z) \<Rightarrow>
        case spherical_coords real_arith pos_np ! i of (r, x', phi) \<Rightarrow>
          r = sqrt (x\<^sup>2 + y\<^sup>2 + z\<^sup>2) \<and> x' = x
          \<and> phi = np_remainder (np_arctan2 z y) (2 * pi) \<and> 0 \<le> phi \<and> phi < 2 * pi)"
proof -
  assume i: "i < length pos_np"
  have "0 \<le> np_remainder a (2 * pi) \<and> np_remainder a (2 * pi) < 2 * pi" for a
    by (rule np_remainder_range) simp
  with i show ?thesis
    by (simp add: spherical_coords_def real_arith_def split: prod.splits)
qed

text \<open>
  Where the operations round, the order is that of the rounded keys. The float64 points
  \<open>(9.9, 8.8, 0.8)\<close> and \<open>(0.8, 8.8, 9.9)\<close> have the same radius over the reals, and the larger
  \<open>x\<close> of the first would put it last; their float64 radii are \<open>13.269890730522237\<close> and
  \<open>13.269890730522238\<close>, and the sequencer returns the first point first.
\<close>

lemma float64_radius_order_example:
  "sort_nodes_and_edges (float64_arith libm_arctan2)
     [(float64 (99 / 10), float64 (88 / 10), float64 (8 / 10)),
      (float64 (8 / 10), float64 (88 / 10), float64 (99 / 10))] [] = [0, 1]
   \<and> sort_nodes_and_edges real_arith
     [(float64 (99 / 10), float64 (88 / 10), float64 (8 / 10)),
      (float64 (8 / 10), float64 (88 / 10), float64 (99 / 10))] [] = [1, 0]"
proof
  have s: "f_sort_pos (float64_arith libm_arctan2) = (\<lambda>v. v)" by (simp add: float64_arith_def)
  show "sort_nodes_and_edges (float64_arith libm_arctan2)
     [(float64 (99 / 10), float64 (88 / 10), float64 (8 / 10)),
      (float64 (8 / 10), float64 (88 / 10), float64 (99 / 10))] [] = [0, 1]"
    unfolding f64_99_10 f64_88_10 f64_8_10 sort_nodes_and_edges_sort_key
    by (simp add: lex_key_def spherical_coords_def upt_rec s float64_radius_abc float64_radius_cba)
  show "sort_nodes_and_edges real_arith
     [(float64 (99 / 10), float64 (88 / 10), float64 (8 / 10)),
      (float64 (8 / 10), float64 (88 / 10), float64 (99 / 10))] [] = [1, 0]"
    unfolding f64_99_10 f64_88_10 f64_8_10 sort_nodes_and_edges_sort_key
    by (simp add: lex_key_def spherical_coords_def real_arith_def upt_rec)
qed

subsection \<open>C8: the ranges of the grid coordinates\<close>




subsection \<open>C9: sizes that are not positive\<close>

text \<open>
  Claim C9, as the code has it. The grid generator checks no size. A negative size makes
  \<^verbatim>\<open>torch.arange\<close> raise its \<^verbatim>\<open>RuntimeError\<close>; with no negative size and one size equal
  to zero the call returns the empty grid.
\<close>

theorem grid_nonpositive_sizes:
  "(W < 0 \<or> H < 0 \<longrightarrow> get_gridX (W, H) = Inl RuntimeError)
   \<and> (0 \<le> W \<and> 0 \<le> H \<and> (W = 0 \<or> H = 0) \<longrightarrow> get_gridX (W, H) = Inr [])"
  by (auto simp: get_gridX_def torch_arange_def)

text \<open>
  Two instances: the sizes \<open>(-1, 1)\<close> and \<open>(3, 0)\<close>.
\<close>

theorem grid_nonpositive_sizes_witness:
  "((- 1 :: int) < 0 \<or> (1 :: int) < 0) \<and> get_gridX (- 1, 1) = Inl RuntimeError
   \<and> (0 :: int) \<le> 3 \<and> (0 :: int) \<le> 0 \<and> get_gridX (3, 0) = Inr []"
  using grid_nonpositive_sizes [of "- 1" 1] grid_nonpositive_sizes [of 3 0] by simp

text \<open>
  The size \<open>(0, 1)\<close>: a value is returned.
\<close>

theorem grid_zero_size_counterexample:
  "get_gridX (0, 1) = Inr []"
  by (simp add: get_gridX_def torch_arange_def)

subsection \<open>C10: no sample in the histogram range\<close>

text \<open>
  Claim C10, as the code has it. Let the file hold whole records of which the histogram
  counts none. When both sizes are positive \<^verbatim>\<open>load_rawdata\<close> returns: every bin is NaN, and
  the subsample has \<open>min (8192, N)\<close> rows for the \<open>N\<close> records of the file, none for the empty
  file and one for each record otherwise. When a size is zero the call raises the
  \<^verbatim>\<open>ZeroDivisionError\<close> of \<^verbatim>\<open>4 * math.pi / 0\<close>.
\<close>

theorem empty_histogram_gives_nan:
  "(length rawdata mod 4 = 0 \<and> 0 < fst sizes \<and> 0 < snd sizes
      \<and> sum_list (hist_counts dt sizes rawdata) = 0
      \<and> np_random_choice_ok (length rawdata div 4) (min 8192 (length rawdata div 4))
           (np_random_choice (length rawdata div 4) (min 8192 (length rawdata div 4)))
     \<longrightarrow> (\<exists>raw_data.
           load_rawdata dt sizes np_random_choice rawdata
             = Inr (raw_data, replicate (fst sizes * snd sizes) NaN)
           \<and> length raw_data = min 8192 (length rawdata div 4)))
   \<and> (length rawdata mod 4 = 0 \<and> (fst sizes = 0 \<or> snd sizes = 0)
     \<longrightarrow> load_rawdata dt sizes np_random_choice rawdata = Inl ZeroDivisionError)"
proof (intro conjI impI)
  assume a: "length rawdata mod 4 = 0 \<and> 0 < fst sizes \<and> 0 < snd sizes
      \<and> sum_list (hist_counts dt sizes rawdata) = 0
      \<and> np_random_choice_ok (length rawdata div 4) (min 8192 (length rawdata div 4))
           (np_random_choice (length rawdata div 4) (min 8192 (length rawdata div 4)))"
  let ?H = "hist_counts dt sizes rawdata"
  let ?n = "fst sizes * snd sizes"
  let ?N = "length rawdata div 4"
  let ?raw = "map (\<lambda>k. raw_X dt rawdata ! k) (np_random_choice ?N (min 8192 ?N))"
  from a have m: "length rawdata mod 4 = 0" by simp
  from a have n: "?n \<noteq> 0" by simp
  from a have s: "sum_list ?H = 0" by simp
  from a have c: "np_random_choice_ok ?N (min 8192 ?N) (np_random_choice ?N (min 8192 ?N))" by simp
  from s have zero: "\<forall>h\<in>set ?H. h = 0" by simp
  from s have tot: "sum_list (map real ?H) = 0" by (simp add: real_sum_list)
  have "map (\<lambda>h. fl_div (fl_div (Fin h) 0) (4 * pi / real ?n)) (map real ?H)
          = map (\<lambda>h. NaN) ?H"
    using zero by (simp add: fl_div_def)
  also have "\<dots> = replicate ?n NaN"
    by (simp add: map_replicate_const length_hist_counts)
  finally have rd: "map (\<lambda>h. fl_div (fl_div (Fin h) 0) (4 * pi / real ?n)) (map real ?H)
          = replicate ?n NaN" .
  have load: "load_rawdata dt sizes np_random_choice rawdata = Inr (?raw, replicate ?n NaN)"
    using m n tot rd
    by (simp add: load_rawdata_def Let_def length_hist_counts length_raw_X)
  from c have len: "length ?raw = min 8192 ?N"
    by (simp add: np_random_choice_ok_def)
  with load show "\<exists>raw_data.
           load_rawdata dt sizes np_random_choice rawdata
             = Inr (raw_data, replicate (fst sizes * snd sizes) NaN)
           \<and> length raw_data = min 8192 (length rawdata div 4)" by blast
next
  assume "length rawdata mod 4 = 0 \<and> (fst sizes = 0 \<or> snd sizes = 0)"
  then show "load_rawdata dt sizes np_random_choice rawdata = Inl ZeroDivisionError"
    by (auto simp: load_rawdata_def Let_def length_hist_counts)
qed

text \<open>
  Two instances: the empty file with one bin, and the empty file with the sizes \<open>(0, 1)\<close>.
\<close>

theorem empty_histogram_gives_nan_witness:
  "length ([] :: real list) mod 4 = 0 \<and> 0 < fst (1 :: nat, 1 :: nat) \<and> 0 < snd (1 :: nat, 1 :: nat)
   \<and> sum_list (hist_counts Float32 (1, 1) []) = 0
   \<and> np_random_choice_ok (length ([] :: real list) div 4) (min 8192 (length ([] :: real list) div 4))
        ((\<lambda>n k. [0..<k]) (length ([] :: real list) div 4) (min 8192 (length ([] :: real list) div 4)))
   \<and> (\<exists>raw_data.
           load_rawdata Float32 (1, 1) (\<lambda>n k. [0..<k]) []
             = Inr (raw_data, replicate (fst (1 :: nat, 1 :: nat) * snd (1 :: nat, 1 :: nat)) NaN)
           \<and> length raw_data = min 8192 (length ([] :: real list) div 4))
   \<and> (fst (0 :: nat, 1 :: nat) = 0 \<or> snd (0 :: nat, 1 :: nat) = 0)
   \<and> load_rawdata Float32 (0, 1) (\<lambda>n k. [0..<k]) [] = Inl ZeroDivisionError"
proof -
  have h1: "length ([] :: real list) mod 4 = 0" by simp
  have h2: "0 < fst (1 :: nat, 1 :: nat)" by simp
  have h3: "0 < snd (1 :: nat, 1 :: nat)" by simp
  have h4: "sum_list (hist_counts Float32 (1, 1) []) = 0"
    by (rule hist_counts_negative_azimuth) (simp add: field_1_def)
  have h5: "np_random_choice_ok (length ([] :: real list) div 4) (min 8192 (length ([] :: real list) div 4))
        ((\<lambda>n k. [0..<k]) (length ([] :: real list) div 4) (min 8192 (length ([] :: real list) div 4)))"
    by (simp add: np_random_choice_ok_def)
  have h6: "fst (0 :: nat, 1 :: nat) = 0 \<or> snd (0 :: nat, 1 :: nat) = 0" by simp
  note t1 = empty_histogram_gives_nan [of "[]" "(1, 1)" Float32 "\<lambda>n k. [0..<k]"]
  note t2 = empty_histogram_gives_nan [of "[]" "(0, 1)" Float32 "\<lambda>n k. [0..<k]"]
  note a = mp [OF t1 [THEN conjunct1] conjI [OF h1 conjI [OF h2 conjI [OF h3 conjI [OF h4 h5]]]]]
  note b = mp [OF t2 [THEN conjunct2] conjI [OF h1 h6]]
  show ?thesis
    by (rule conjI [OF h1 conjI [OF h2 conjI [OF h3 conjI [OF h4 conjI [OF h5 conjI [OF a conjI [OF h6 b]]]]]]])
qed

text \<open>
  Two files of which no sample is counted: the empty file with the sizes \<open>(0, 1)\<close>, on
  which the call raises, and one record with \<open>x = 2\<close> and one bin, on which the subsample
  has one row.
\<close>

theorem empty_histogram_counterexample:
  "sum_list (hist_counts Float32 (0, 1) []) = 0
   \<and> load_rawdata Float32 (0, 1) (\<lambda>n k. [0..<k]) [] = Inl ZeroDivisionError
   \<and> sum_list (hist_counts Float32 (1, 1) [2, 0, 0, 0]) = 0
   \<and> load_rawdata Float32 (1, 1) (\<lambda>n k. [0..<k]) [2, 0, 0, 0]
        = Inr ([(Fin 2, NaN, NaN)], [NaN])"
proof (intro conjI)
  show "sum_list (hist_counts Float32 (0, 1) []) = 0"
    by (rule hist_counts_negative_azimuth) (simp add: field_1_def)
  show "load_rawdata Float32 (0, 1) (\<lambda>n k. [0..<k]) [] = Inl ZeroDivisionError"
    by (simp add: load_rawdata_def Let_def hist_counts_zero_size)
  show "sum_list (hist_counts Float32 (1, 1) [2, 0, 0, 0]) = 0"
    unfolding hist_counts_x_out_of_range by simp
  show "load_rawdata Float32 (1, 1) (\<lambda>n k. [0..<k]) [2, 0, 0, 0]
        = Inr ([(Fin 2, NaN, NaN)], [NaN])"
    by (simp add: load_rawdata_def Let_def hist_counts_x_out_of_range_Suc raw_X_def field_x_def
          field_phi_def field_1_def direction_def np_sqrt_def fl_mul_def fl_div_def)
qed

end
